theory Spec2Isabelle
  imports Complex_Main "HOL-Library.Word"
begin

section \<open>Tokens (class Token of Tokenizer.ipp)\<close>

text \<open>
  The enumeration \<^verbatim>\<open>Token::Kind\<close>. The datatype has exactly the five enumerators, so
  the \<^verbatim>\<open>default:\<close> branches of \<^verbatim>\<open>lstr\<close> and \<^verbatim>\<open>sstr\<close> (which throw
  \<^verbatim>\<open>logic_error("Unrecognized kind.")\<close>) are not branches of the model.
\<close>

datatype Kind = Valid | Space | Newline | EndOfFile | Invalid

text \<open>\<^verbatim>\<open>typedef uint64_t Pos\<close>: positions are 64-bit unsigned, \<^verbatim>\<open>++\<close> wraps around.\<close>

type_synonym Pos = "64 word"

text \<open>The two exception classes the code throws, each with its message.\<close>

datatype error = logic_error string | runtime_error string

text \<open>
  The fields of \<^verbatim>\<open>Token<T, EQ>\<close>. \<^verbatim>\<open>mValue\<close> is always present in the class: the
  constructor for the kinds other than \<^verbatim>\<open>Valid\<close> value-initialises it (\<^verbatim>\<open>mValue()\<close>).
\<close>

record 'v Token =
  mKind :: Kind
  mValue :: 'v
  mLine :: Pos
  mToken :: Pos

text \<open>
  What the templates need from the base character type \<^verbatim>\<open>T\<close> and from their predicate
  parameters:
  \<^item> \<open>T_init\<close> is the value-initialised \<^verbatim>\<open>T()\<close>;
  \<^item> \<open>T_extract\<close> is the formatted extraction \<^verbatim>\<open>mInput >> value\<close>, applied to the
    characters that remain in the stream. \<open>None\<close> is the stream's fail bit;
    \<open>Some (v, n)\<close> is the value read, with \<open>Suc n\<close> characters taken from the stream
    (a successful extraction of a \<^verbatim>\<open>char\<close> or a \<^verbatim>\<open>long double\<close> takes at least the
    character that was peeked). After a failed extraction \<^verbatim>\<open>next()\<close> makes the
    tokenizer invalid and the stream is never read again, so the model leaves its
    characters where they are;
  \<^item> \<open>T_insert\<close> is the formatted insertion \<^verbatim>\<open>ss << mValue\<close> into an empty string stream;
  \<^item> \<open>VAL\<close> and \<open>EQ\<close> are the template parameters of these names.
\<close>

record 'v Profile =
  T_init :: 'v
  T_extract :: "string \<Rightarrow> ('v \<times> nat) option"
  T_insert :: "'v \<Rightarrow> string"
  VAL :: "'v \<Rightarrow> bool"
  EQ :: "'v \<Rightarrow> 'v \<Rightarrow> bool"

text \<open>\<^verbatim>\<open>Token(Kind kind, Pos line, Pos token)\<close>: throws when \<^verbatim>\<open>kind\<close> is \<^verbatim>\<open>Valid\<close>.\<close>

definition Token_of_kind :: "'v Profile \<Rightarrow> Kind \<Rightarrow> Pos \<Rightarrow> Pos \<Rightarrow> error + 'v Token" where
  "Token_of_kind P kind line token =
     (if kind = Valid then Inl (logic_error ''Cannot create valid token without value.'')
      else Inr \<lparr>mKind = kind, mValue = T_init P, mLine = line, mToken = token\<rparr>)"

text \<open>\<^verbatim>\<open>Token(T value, Pos line, Pos token)\<close>: the kind is \<^verbatim>\<open>Valid\<close>, nothing is checked.\<close>

definition Token_of_value :: "'v \<Rightarrow> Pos \<Rightarrow> Pos \<Rightarrow> 'v Token" where
  "Token_of_value v line token = \<lparr>mKind = Valid, mValue = v, mLine = line, mToken = token\<rparr>"

text \<open>The accessors \<^verbatim>\<open>kind()\<close>, \<^verbatim>\<open>value()\<close>, \<^verbatim>\<open>line()\<close> and \<^verbatim>\<open>token()\<close>.\<close>

definition kind :: "'v Token \<Rightarrow> Kind" where
  "kind t = mKind t"

definition value_of :: "'v Token \<Rightarrow> error + 'v" where
  "value_of t =
     (if mKind t \<noteq> Valid then Inl (logic_error ''Cannot obtain value of non-valid token.'')
      else Inr (mValue t))"

definition line :: "'v Token \<Rightarrow> Pos" where
  "line t = mLine t"

definition token :: "'v Token \<Rightarrow> Pos" where
  "token t = mToken t"

text \<open>\<^verbatim>\<open>lstr()\<close>, the long string of a token.\<close>

definition lstr :: "'v Profile \<Rightarrow> 'v Token \<Rightarrow> string" where
  "lstr P t =
     (case mKind t of
        Valid \<Rightarrow> [CHR 0x27] @ T_insert P (mValue t) @ [CHR 0x27]
      | Newline \<Rightarrow> ''<newline>''
      | Space \<Rightarrow> ''<space>''
      | EndOfFile \<Rightarrow> ''<end>''
      | Invalid \<Rightarrow> ''<invalid-format>'')"

text \<open>\<^verbatim>\<open>sstr()\<close>, the short string of a token.\<close>

definition sstr :: "'v Profile \<Rightarrow> 'v Token \<Rightarrow> string" where
  "sstr P t =
     (case mKind t of
        Valid \<Rightarrow> T_insert P (mValue t)
      | Newline \<Rightarrow> [CHR 0x0A]
      | Space \<Rightarrow> '' ''
      | EndOfFile \<Rightarrow> ''<end>''
      | Invalid \<Rightarrow> ''<invalid-format>'')"

text \<open>\<^verbatim>\<open>isEqual(t)\<close>, called on the token \<open>a\<close>.\<close>

definition isEqual :: "'v Profile \<Rightarrow> 'v Token \<Rightarrow> 'v Token \<Rightarrow> bool" where
  "isEqual P a t =
     (if mKind a \<noteq> mKind t then False
      else if mKind a = Valid then (if EQ P (mValue a) (mValue t) then True else False)
      else True)"

section \<open>The two profiles (diff_checker_char.cpp, diff_checker_real.cpp)\<close>

text \<open>\<^verbatim>\<open>val\<close> and \<^verbatim>\<open>eq\<close> of diff_checker_char.cpp, on the byte of the \<^verbatim>\<open>char\<close>.\<close>

definition val_char :: "char \<Rightarrow> bool" where
  "val_char a = (of_char CHR ''!'' \<le> (of_char a :: nat) \<and> (of_char a :: nat) \<le> of_char CHR ''~'')"

definition eq_char :: "char \<Rightarrow> char \<Rightarrow> bool" where
  "eq_char a b = (a = b)"

text \<open>
  \<^verbatim>\<open>operator>>(istream &, char &)\<close> on a stream whose \<^verbatim>\<open>skipws\<close> flag is set, as it is
  on every stream the checker opens: the white space of the classic locale is skipped,
  then one character is taken; the fail bit is set when the stream ends first.
\<close>

definition isspace :: "char \<Rightarrow> bool" where
  "isspace c = (c = CHR '' '' \<or> (9 \<le> (of_char c :: nat) \<and> (of_char c :: nat) \<le> 13))"

definition extract_char :: "string \<Rightarrow> (char \<times> nat) option" where
  "extract_char cs =
     (case dropWhile isspace cs of
        [] \<Rightarrow> None
      | c # _ \<Rightarrow> Some (c, length (takeWhile isspace cs)))"

definition char_profile :: "char Profile" where
  "char_profile =
     \<lparr>T_init = CHR 0x00, T_extract = extract_char, T_insert = (\<lambda>c. [c]),
      VAL = val_char, EQ = eq_char\<rparr>"

text \<open>
  \<^verbatim>\<open>eq\<close> of diff_checker_real.cpp. Every finite \<^verbatim>\<open>long double\<close> is a rational number;
  the model takes the arguments as rationals and the arithmetic of the body as exact,
  so the rounding of \<^verbatim>\<open>long double\<close> products and of the three decimal constants is
  left out. The model and the compiled code can therefore differ for arguments on the
  border of a band, where the rounding decides (such as 10 and the \<^verbatim>\<open>long double\<close>
  nearest to 9.9). They agree on equal arguments, where \<^verbatim>\<open>a - b\<close> is exactly zero for
  finite values, and on arguments as far from every border as 100000 and 99005; the
  theorems about \<open>eq_real\<close> below use it on such arguments only.
\<close>

definition eq_real :: "rat \<Rightarrow> rat \<Rightarrow> bool" where
  "eq_real a b =
     (if a - b \<le> 1 / 100000 \<and> b - a \<le> 1 / 100000 then True
      else if a \<ge> 0 then a * (99 / 100) \<le> b \<and> b \<le> a * (101 / 100)
      else a * (101 / 100) \<le> b \<and> b \<le> a * (99 / 100))"

section \<open>The tokenizer (class Tokenizer of Tokenizer.ipp)\<close>

text \<open>
  The fields of \<^verbatim>\<open>Tokenizer<T, VAL, EQ>\<close>. The \<^verbatim>\<open>istream\<close> is read forward only, by
  \<^verbatim>\<open>peek\<close>, \<^verbatim>\<open>get\<close> and \<^verbatim>\<open>>>\<close>; \<open>mInput\<close> is the list of the characters it
  has not delivered yet, and the end of the list is the end of the file.
\<close>

record Tokenizer =
  mInput :: string
  mIsValid :: bool
  mLine :: Pos
  mToken :: Pos

text \<open>The constructor \<^verbatim>\<open>Tokenizer(istream & input)\<close>.\<close>

definition Tokenizer_on :: "string \<Rightarrow> Tokenizer" where
  "Tokenizer_on input = \<lparr>mInput = input, mIsValid = True, mLine = 1, mToken = 1\<rparr>"

text \<open>\<^verbatim>\<open>isValid()\<close>.\<close>

definition isValid :: "Tokenizer \<Rightarrow> bool" where
  "isValid s = mIsValid s"

text \<open>
  \<^verbatim>\<open>istream::peek\<close> and \<^verbatim>\<open>istream::get\<close>; \<open>None\<close> is \<^verbatim>\<open>EOF\<close>.
\<close>

definition peek :: "string \<Rightarrow> char option" where
  "peek cs = (case cs of [] \<Rightarrow> None | c # _ \<Rightarrow> Some c)"

definition get :: "string \<Rightarrow> char option \<times> string" where
  "get cs = (case cs of [] \<Rightarrow> (None, []) | c # rest \<Rightarrow> (Some c, rest))"

text \<open>
  A call that may throw returns the exception or its result, together with the
  tokenizer as the call leaves it; \<open>then_do\<close> runs the rest of a function body after a
  call that did not throw.
\<close>

definition then_do ::
  "(error + 'a) \<times> Tokenizer \<Rightarrow> ('a \<Rightarrow> Tokenizer \<Rightarrow> (error + 'b) \<times> Tokenizer)
     \<Rightarrow> (error + 'b) \<times> Tokenizer" where
  "then_do m f = (case m of (Inl e, s) \<Rightarrow> (Inl e, s) | (Inr a, s) \<Rightarrow> f a s)"

text \<open>\<^verbatim>\<open>consume(c)\<close>.\<close>

definition consume :: "char option \<Rightarrow> Tokenizer \<Rightarrow> (error + unit) \<times> Tokenizer" where
  "consume c s =
     (case get (mInput s) of
        (g, rest) \<Rightarrow>
          if g \<noteq> c
          then (Inl (runtime_error ''Tokenizer failed unexpectedly. (consume)''),
                s\<lparr>mInput := rest, mIsValid := False\<rparr>)
          else (Inr (), s\<lparr>mInput := rest\<rparr>))"

text \<open>
  The statements \<^verbatim>\<open>consume(EOF); mIsValid = false; return TokenType(EndOfFile, mLine, mToken);\<close>
  which \<^verbatim>\<open>next()\<close> has at lines 245-247, 257-259, 277-279 and 289-291.
\<close>

definition end_of_file :: "'v Profile \<Rightarrow> Tokenizer \<Rightarrow> (error + 'v Token) \<times> Tokenizer" where
  "end_of_file P s =
     then_do (consume None s)
       (\<lambda>_ s1. let s2 = s1\<lparr>mIsValid := False\<rparr>
                in (Token_of_kind P EndOfFile (mLine s2) (mToken s2), s2))"

text \<open>
  What \<^verbatim>\<open>next()\<close> does after \<^verbatim>\<open>consume('\n')\<close>, at lines 253-267 and again at lines
  285-299: peek; at the end of the file the statements above, otherwise a
  \<^verbatim>\<open>Newline\<close> token, \<^verbatim>\<open>mLine++\<close> and \<^verbatim>\<open>mToken = 1\<close>.
\<close>

definition after_newline :: "'v Profile \<Rightarrow> Tokenizer \<Rightarrow> (error + 'v Token) \<times> Tokenizer" where
  "after_newline P s =
     (case peek (mInput s) of
        None \<Rightarrow> end_of_file P s
      | Some _ \<Rightarrow>
          (Token_of_kind P Newline (mLine s) (mToken s), s\<lparr>mLine := mLine s + 1, mToken := 1\<rparr>))"

text \<open>\<^verbatim>\<open>next()\<close>.\<close>

definition next_token :: "'v Profile \<Rightarrow> Tokenizer \<Rightarrow> (error + 'v Token) \<times> Tokenizer" where
  "next_token P s =
     (if mIsValid s = False then (Inl (logic_error ''Tokenizer is not valid anymore.''), s)
      else
        case peek (mInput s) of
          None \<Rightarrow> end_of_file P s
        | Some peekc \<Rightarrow>
            if peekc = CHR 0x0A then
              then_do (consume (Some (CHR 0x0A)) s) (\<lambda>_ s1. after_newline P s1)
            else if peekc = CHR '' '' then
              then_do (consume (Some (CHR '' '')) s)
                (\<lambda>_ s1.
                   case peek (mInput s1) of
                     None \<Rightarrow> end_of_file P s1
                   | Some peekc1 \<Rightarrow>
                       if peekc1 = CHR 0x0A then
                         then_do (consume (Some (CHR 0x0A)) s1) (\<lambda>_ s2. after_newline P s2)
                       else
                         (Token_of_kind P Space (mLine s1) (mToken s1),
                          s1\<lparr>mToken := mToken s1 + 1\<rparr>))
            else
              (case T_extract P (mInput s) of
                 None \<Rightarrow>
                   (let s1 = s\<lparr>mIsValid := False\<rparr>
                    in (Token_of_kind P Invalid (mLine s1) (mToken s1), s1))
               | Some (v, n) \<Rightarrow>
                   (let s1 = s\<lparr>mInput := drop (Suc n) (mInput s)\<rparr>
                    in if VAL P v
                       then (Inr (Token_of_value v (mLine s1) (mToken s1)),
                             s1\<lparr>mToken := mToken s1 + 1\<rparr>)
                       else (let s2 = s1\<lparr>mIsValid := False\<rparr>
                             in (Token_of_kind P Invalid (mLine s2) (mToken s2), s2)))))"

text \<open>
  What bounds every loop over a tokenizer: nothing once it is not valid, else the
  characters left and the end of the file.
\<close>

definition left :: "Tokenizer \<Rightarrow> nat" where
  "left s = (if mIsValid s then Suc (length (mInput s)) else 0)"

text \<open>
  The tokens that successive calls of \<^verbatim>\<open>next()\<close> return, from a tokenizer on, for as
  long as the calls return a token.
\<close>

function tokens :: "'v Profile \<Rightarrow> Tokenizer \<Rightarrow> 'v Token list" where
  "tokens P s =
     (case next_token P s of
        (Inl e, s') \<Rightarrow> []
      | (Inr t, s') \<Rightarrow> t # tokens P s')"
  by pat_completeness auto
termination
  by (relation "measure (\<lambda>(P, s). left s)")
     (auto simp: next_token_def left_def then_do_def consume_def get_def peek_def
        end_of_file_def after_newline_def Token_of_kind_def Let_def
      split: if_splits list.splits option.splits)

declare tokens.simps [simp del]

section \<open>The checker (diff_checker_base.ipp)\<close>

text \<open>
  The template parameters of \<^verbatim>\<open>diff_checker_base\<close>; \<open>Tokenizer_of\<close> stands for the
  parameter \<^verbatim>\<open>Tokenizer\<close>, a tokenizer class with its base type and predicates.
\<close>

record 'v Checker =
  Tokenizer_of :: "'v Profile"
  LookAhead :: int
  ShowDiff :: bool
  ShowOutput :: bool

text \<open>
  What a run leaves behind: the characters written to \<^verbatim>\<open>cout\<close> and to \<^verbatim>\<open>cerr\<close>, and
  either the value \<^verbatim>\<open>diff_checker_base\<close> returns or the exception that left it.
\<close>

record Run =
  out :: string
  err :: string
  status :: "error + int"

definition endl :: string where
  "endl = [CHR 0x0A]"

text \<open>\<^verbatim>\<open>operator<<\<close> of an output stream on a \<^verbatim>\<open>uint64_t\<close>: the decimal digits.\<close>

function decimal :: "nat \<Rightarrow> string" where
  "decimal n = (if n < 10 then [char_of (48 + n)] else decimal (n div 10) @ [char_of (48 + n mod 10)])"
  by pat_completeness auto
termination
  by (relation "measure (\<lambda>n. n)") auto

declare decimal.simps [simp del]

definition insert_Pos :: "Pos \<Rightarrow> string" where
  "insert_Pos p = decimal (unat p)"

text \<open>
  The loop \<^verbatim>\<open>for (int i = 0; i < LookAhead; i++)\<close> at lines 125-137, from the value
  \<open>i\<close> on. It changes \<^verbatim>\<open>claimedToken\<close>, the tokenizer \<^verbatim>\<open>claimed\<close> and
  \<^verbatim>\<open>checkerOutput\<close>.
\<close>

function look_ahead ::
  "'v Checker \<Rightarrow> int \<Rightarrow> 'v Token \<Rightarrow> Tokenizer \<Rightarrow> string
     \<Rightarrow> (error + 'v Token \<times> string) \<times> Tokenizer" where
  "look_ahead C i claimedToken claimed checkerOutput =
     (if i < LookAhead C then
        if kind claimedToken = EndOfFile \<or> kind claimedToken = Invalid
        then (Inr (claimedToken, checkerOutput), claimed)
        else
          (case next_token (Tokenizer_of C) claimed of
             (Inl e, claimed1) \<Rightarrow> (Inl e, claimed1)
           | (Inr t, claimed1) \<Rightarrow>
               look_ahead C (i + 1) t claimed1 (checkerOutput @ sstr (Tokenizer_of C) t))
      else (Inr (claimedToken, checkerOutput), claimed))"
  by pat_completeness auto
termination
  by (relation "measure (\<lambda>(C, i, t, s, b). nat (LookAhead C - i))") auto

declare look_ahead.simps [simp del]

text \<open>
  The first line that the body of \<^verbatim>\<open>if (!correctToken.isEqual(claimedToken))\<close>
  writes to \<^verbatim>\<open>cout\<close>, lines 91-113.
\<close>

definition diff_message :: "'v Checker \<Rightarrow> bool \<Rightarrow> 'v Token \<Rightarrow> 'v Token \<Rightarrow> string" where
  "diff_message C isTestCaseHidden claimedToken correctToken =
     (if ShowDiff C then
        if isTestCaseHidden
        then ''0|Wrong output. (Mismatch intentionally hidden.)'' @ endl
        else ''0|Unexpected '' @ lstr (Tokenizer_of C) claimedToken
             @ '' at line '' @ insert_Pos (line claimedToken)
             @ '', token '' @ insert_Pos (token claimedToken)
             @ '', while expecting '' @ lstr (Tokenizer_of C) correctToken
             @ ''.'' @ endl
      else ''0|Wrong output.'' @ endl)"

text \<open>
  The whole body of that \<^verbatim>\<open>if\<close>, lines 91-157; \<open>claimed\<close> is the claimed
  tokenizer after it returned \<open>claimedToken\<close>, and \<open>checkerOutput\<close> already ends
  with the short string of \<open>claimedToken\<close>.
\<close>

definition mismatch ::
  "'v Checker \<Rightarrow> bool \<Rightarrow> 'v Token \<Rightarrow> 'v Token \<Rightarrow> Tokenizer \<Rightarrow> string \<Rightarrow> Run" where
  "mismatch C isTestCaseHidden claimedToken correctToken claimed checkerOutput =
     (let cout1 = diff_message C isTestCaseHidden claimedToken correctToken
      in if ShowOutput C then
           if isTestCaseHidden
           then \<lparr>out = cout1 @ ''(Your output is intentionally hidden.)'' @ endl,
                 err = [], status = Inr 0\<rparr>
           else
             (let cout2 = cout1 @ ''Your output (as parsed):'' @ endl
              in case look_ahead C 0 claimedToken claimed checkerOutput of
                   (Inl e, _) \<Rightarrow> \<lparr>out = cout2, err = [], status = Inl e\<rparr>
                 | (Inr (claimedToken1, checkerOutput1), _) \<Rightarrow>
                     (let checkerOutput2 =
                            (if kind claimedToken1 = Invalid then checkerOutput1 @ ''..?..''
                             else if kind claimedToken1 \<noteq> EndOfFile then checkerOutput1 @ ''.....''
                             else checkerOutput1)
                      in \<lparr>out = cout2 @ checkerOutput2 @ endl, err = [], status = Inr 0\<rparr>))
         else \<lparr>out = cout1, err = [], status = Inr 0\<rparr>)"

text \<open>The loop \<^verbatim>\<open>while (true)\<close>, lines 76-164.\<close>

function compare_loop ::
  "'v Checker \<Rightarrow> bool \<Rightarrow> Tokenizer \<Rightarrow> Tokenizer \<Rightarrow> string \<Rightarrow> Run" where
  "compare_loop C isTestCaseHidden claimed correct checkerOutput =
     (case next_token (Tokenizer_of C) claimed of
        (Inl e, claimed1) \<Rightarrow> \<lparr>out = [], err = [], status = Inl e\<rparr>
      | (Inr claimedToken, claimed1) \<Rightarrow>
          (case next_token (Tokenizer_of C) correct of
             (Inl e, correct1) \<Rightarrow> \<lparr>out = [], err = [], status = Inl e\<rparr>
           | (Inr correctToken, correct1) \<Rightarrow>
               if kind correctToken = Invalid
               then \<lparr>out = [], err = ''Ground-truth file format is invalid.'' @ endl,
                     status = Inr 1\<rparr>
               else
                 (let checkerOutput1 = checkerOutput @ sstr (Tokenizer_of C) claimedToken
                  in if \<not> isEqual (Tokenizer_of C) correctToken claimedToken
                     then mismatch C isTestCaseHidden claimedToken correctToken claimed1
                            checkerOutput1
                     else if kind correctToken = EndOfFile
                     then \<lparr>out = ''1|Correct output.'', err = [], status = Inr 0\<rparr>
                     else compare_loop C isTestCaseHidden claimed1 correct1 checkerOutput1)))"
  by pat_completeness auto
termination
  by (relation "measure (\<lambda>(C, h, claimed, correct, b). left correct)")
     (auto simp: next_token_def left_def then_do_def consume_def get_def peek_def
        end_of_file_def after_newline_def Token_of_kind_def Let_def
      split: if_splits list.splits option.splits)

declare compare_loop.simps [simp del]

text \<open>
  \<^verbatim>\<open>diff_checker_base(argc, argv)\<close>. \<open>argv\<close> is the argument vector, \<^verbatim>\<open>argc\<close> its
  length; \<open>files\<close> gives the content of each path an \<^verbatim>\<open>ifstream\<close> can open, and
  \<open>None\<close> for a path whose stream fails on construction.
\<close>

definition diff_checker_base ::
  "'v Checker \<Rightarrow> string list \<Rightarrow> (string \<Rightarrow> string option) \<Rightarrow> Run" where
  "diff_checker_base C argv files =
     (if int (length argv) < 5
      then \<lparr>out = [], err = ''Invalid parameters.'' @ endl, status = Inr 1\<rparr>
      else
        (let claimedOutputPath = argv ! 2;
             correctOutputPath = argv ! 3;
             argv4 = argv ! 4
         in if argv4 \<noteq> ''0'' \<and> argv4 \<noteq> ''1''
            then \<lparr>out = [], err = ''Invalid test-case-hidden parameter.'' @ endl,
                  status = Inr 1\<rparr>
            else
              (let isTestCaseHidden = (argv4 = ''1'')
               in case files claimedOutputPath of
                    None \<Rightarrow>
                      \<lparr>out = ''0|Error opening the output file.'' @ endl, err = [],
                       status = Inr 0\<rparr>
                  | Some claimedStream \<Rightarrow>
                      (case files correctOutputPath of
                         None \<Rightarrow>
                           \<lparr>out = [], err = ''Error opening the ground-truth file.'' @ endl,
                            status = Inr 1\<rparr>
                       | Some correctStream \<Rightarrow>
                           compare_loop C isTestCaseHidden (Tokenizer_on claimedStream)
                             (Tokenizer_on correctStream) []))))"

text \<open>The checker that diff_checker_char.cpp instantiates (\<^verbatim>\<open>main\<close>, lines 39-45).\<close>

definition char_checker :: "bool \<Rightarrow> bool \<Rightarrow> char Checker" where
  "char_checker SHOW_DIFF_FLAG SHOW_OUTPUT_FLAG =
     \<lparr>Tokenizer_of = char_profile, LookAhead = 10,
      ShowDiff = SHOW_DIFF_FLAG, ShowOutput = SHOW_OUTPUT_FLAG\<rparr>"

text \<open>
  A command line and a file system for the scenarios: the claimed output is the path
  \<^verbatim>\<open>claimed\<close>, the ground truth the path \<^verbatim>\<open>correct\<close>; each of the two is given
  with its content, or as \<open>None\<close> when it cannot be opened, and no other path can be
  opened.
\<close>

definition command_line :: "string \<Rightarrow> string list" where
  "command_line hidden = [''checker'', ''input'', ''claimed'', ''correct'', hidden]"

definition two_files :: "string option \<Rightarrow> string option \<Rightarrow> string \<Rightarrow> string option" where
  "two_files claimed correct path =
     (if path = ''claimed'' then claimed
      else if path = ''correct'' then correct
      else None)"

text \<open>
  Notions for the proofs about the loop. \<open>after_calls P n s\<close> is the tokenizer \<open>s\<close>
  after \<open>n\<close> calls of \<^verbatim>\<open>next()\<close>. For the tokens \<open>gs\<close> of the ground truth and
  \<open>cs\<close> of the claimed output, \<open>reaches P gs cs i\<close> says that both have a token
  number \<open>i\<close> (counted from 0) and that all pairs before it are equal;
  \<open>stops P gs cs i\<close> says that pair \<open>i\<close> ends the loop; and \<open>verdict\<close> is what the
  loop body of lines 81-163 answers at such a pair.
\<close>

definition after_calls :: "'v Profile \<Rightarrow> nat \<Rightarrow> Tokenizer \<Rightarrow> Tokenizer" where
  "after_calls P n s = ((\<lambda>s. snd (next_token P s)) ^^ n) s"

definition reaches :: "'v Profile \<Rightarrow> 'v Token list \<Rightarrow> 'v Token list \<Rightarrow> nat \<Rightarrow> bool" where
  "reaches P gs cs i =
     (i < length gs \<and> i < length cs \<and> (\<forall>j<i. isEqual P (gs ! j) (cs ! j)))"

definition stops :: "'v Profile \<Rightarrow> 'v Token list \<Rightarrow> 'v Token list \<Rightarrow> nat \<Rightarrow> bool" where
  "stops P gs cs i =
     (kind (gs ! i) = Invalid \<or> \<not> isEqual P (gs ! i) (cs ! i) \<or> kind (gs ! i) = EndOfFile)"

definition verdict ::
  "'v Checker \<Rightarrow> bool \<Rightarrow> Tokenizer \<Rightarrow> string \<Rightarrow> 'v Token list \<Rightarrow> 'v Token list \<Rightarrow> nat
     \<Rightarrow> Run" where
  "verdict C h claimed buf gs cs i =
     (if kind (gs ! i) = Invalid
      then \<lparr>out = [], err = ''Ground-truth file format is invalid.'' @ endl, status = Inr 1\<rparr>
      else if \<not> isEqual (Tokenizer_of C) (gs ! i) (cs ! i)
      then mismatch C h (cs ! i) (gs ! i) (after_calls (Tokenizer_of C) (Suc i) claimed)
             (buf @ concat (map (sstr (Tokenizer_of C)) (take (Suc i) cs)))
      else \<lparr>out = ''1|Correct output.'', err = [], status = Inr 0\<rparr>)"

text \<open>
  Two notions for the proofs about positions. \<open>in_order t u\<close> says what the
  positions of a token \<open>t\<close> and of the token \<open>u\<close> returned after it have to
  satisfy. \<open>in_bounds N s\<close> bounds the two counters of a tokenizer by the number of
  characters it has read: each counter plus the characters left is at most \<open>N\<close>.
\<close>

definition in_order :: "'v Token \<Rightarrow> 'v Token \<Rightarrow> bool" where
  "in_order t u =
     (line t \<le> line u \<and> (kind t = Newline \<longrightarrow> token u = 1) \<and>
      (kind t = Valid \<or> kind t = Space \<longrightarrow> line u = line t \<and> token t < token u))"

definition in_bounds :: "nat \<Rightarrow> Tokenizer \<Rightarrow> bool" where
  "in_bounds N s =
     (unat (mLine s) + length (mInput s) \<le> N \<and> unat (mToken s) + length (mInput s) \<le> N)"

section \<open>One call of next()\<close>

lemmas next_token_defs =
  next_token_def then_do_def consume_def get_def peek_def end_of_file_def
  after_newline_def Token_of_kind_def Token_of_value_def Let_def

lemma next_token_invalid:
  "\<not> mIsValid s \<Longrightarrow>
     next_token P s = (Inl (logic_error ''Tokenizer is not valid anymore.''), s)"
  by (simp add: next_token_def)

lemma next_token_returns: "mIsValid s \<Longrightarrow> \<exists>t s'. next_token P s = (Inr t, s')"
  by (auto simp: next_token_defs split: list.splits option.splits)

lemma next_token_was_valid: "next_token P s = (Inr t, s') \<Longrightarrow> mIsValid s"
  by (auto simp: next_token_def split: if_splits)

lemma next_token_valid_iff:
  "next_token P s = (Inr t, s') \<Longrightarrow>
     mIsValid s' = (kind t \<noteq> EndOfFile \<and> kind t \<noteq> Invalid)"
  by (auto simp: next_token_defs kind_def split: if_splits list.splits option.splits)

lemma next_token_left: "next_token P s = (Inr t, s') \<Longrightarrow> left s' < left s"
  by (auto simp: next_token_defs left_def split: if_splits list.splits option.splits)

lemma next_token_pos:
  "next_token P s = (Inr t, s') \<Longrightarrow> line t = mLine s \<and> token t = mToken s"
  by (auto simp: next_token_defs line_def token_def
      split: if_splits list.splits option.splits)

lemma next_token_state:
  "next_token P s = (Inr t, s') \<Longrightarrow>
     (kind t = Newline \<longrightarrow>
        mLine s' = mLine s + 1 \<and> mToken s' = 1 \<and> 2 \<le> length (mInput s)) \<and>
     (kind t = Valid \<or> kind t = Space \<longrightarrow>
        mLine s' = mLine s \<and> mToken s' = mToken s + 1 \<and> 1 \<le> length (mInput s)) \<and>
     length (mInput s') \<le> length (mInput s)"
  by (auto simp: next_token_defs kind_def split: if_splits list.splits option.splits)

lemma tokens_invalid: "\<not> mIsValid s \<Longrightarrow> tokens P s = []"
  by (subst tokens.simps) (simp add: next_token_invalid)

lemma tokens_step: "next_token P s = (Inr t, s') \<Longrightarrow> tokens P s = t # tokens P s'"
  by (subst tokens.simps) simp

lemma tokens_error: "next_token P s = (Inl e, s') \<Longrightarrow> tokens P s = []"
  by (subst tokens.simps) simp

lemma tokens_head:
  "tokens P s = t # ts \<Longrightarrow> line t = mLine s \<and> token t = mToken s"
proof (cases "next_token P s")
  case (Pair r s')
  assume a: "tokens P s = t # ts"
  show ?thesis
  proof (cases r)
    case (Inl e)
    with Pair a show ?thesis by (simp add: tokens_error)
  next
    case (Inr u)
    with Pair a have "u = t" by (simp add: tokens_step)
    with Pair Inr show ?thesis using next_token_pos by blast
  qed
qed

section \<open>The short string of a token\<close>

text \<open>
  C3, as the code has it. The short string of a token is the text of its value when
  its kind is \<open>Valid\<close>, a line feed when it is \<open>Newline\<close>, one space when it is
  \<open>Space\<close>; for \<open>EndOfFile\<close> it is the five characters \<^verbatim>\<open><end>\<close> and for
  \<open>Invalid\<close> the text \<^verbatim>\<open><invalid-format>\<close>, the same as in the long string.
\<close>

theorem sstr_by_kind:
  "sstr P t =
     (case kind t of
        Valid \<Rightarrow> T_insert P (mValue t)
      | Newline \<Rightarrow> [CHR 0x0A]
      | Space \<Rightarrow> [CHR 0x20]
      | EndOfFile \<Rightarrow> ''<end>''
      | Invalid \<Rightarrow> ''<invalid-format>'')"
  by (simp add: sstr_def kind_def split: Kind.splits)

text \<open>
  C3 as the specification words it asks for the empty string at the end of the file.
  The token that \<^verbatim>\<open>next()\<close> returns on an empty stream has the kind \<open>EndOfFile\<close>,
  and its short string is not empty.
\<close>

theorem sstr_EndOfFile_not_empty:
  "fst (next_token char_profile (Tokenizer_on [])) =
     Inr \<lparr>mKind = EndOfFile, mValue = CHR 0x00, mLine = 1, mToken = 1\<rparr> \<and>
   sstr char_profile \<lparr>mKind = EndOfFile, mValue = CHR 0x00, mLine = 1, mToken = 1\<rparr> = ''<end>'' \<and>
   sstr char_profile \<lparr>mKind = EndOfFile, mValue = CHR 0x00, mLine = 1, mToken = 1\<rparr> \<noteq> []"
  by (simp add: next_token_defs Tokenizer_on_def sstr_def char_profile_def)

section \<open>Trailing white space\<close>

text \<open>
  C4. The streams \<^verbatim>\<open>"a \n"\<close> and \<^verbatim>\<open>"a\n"\<close> give the same tokens under the character
  profile: the valid token \<^verbatim>\<open>a\<close> at line 1, token 1, and then the end of the file at
  line 1, token 2; there is no \<open>Space\<close> and no \<open>Newline\<close> token.
\<close>

theorem trailing_space_newline_collapse:
  "tokens char_profile (Tokenizer_on ''a \<newline>'') =
     [\<lparr>mKind = Valid, mValue = CHR ''a'', mLine = 1, mToken = 1\<rparr>,
      \<lparr>mKind = EndOfFile, mValue = CHR 0x00, mLine = 1, mToken = 2\<rparr>] \<and>
   tokens char_profile (Tokenizer_on ''a\<newline>'') =
     [\<lparr>mKind = Valid, mValue = CHR ''a'', mLine = 1, mToken = 1\<rparr>,
      \<lparr>mKind = EndOfFile, mValue = CHR 0x00, mLine = 1, mToken = 2\<rparr>]"
  by code_simp

section \<open>The equality predicates\<close>

text \<open>
  C5, as the code has it. Both predicates are reflexive, and the exact predicate on
  characters is symmetric.
\<close>

theorem eq_reflexive_and_eq_char_symmetric:
  "eq_char c c \<and> eq_char a b = eq_char b a \<and> eq_real x x"
  by (auto simp: eq_char_def eq_real_def)

text \<open>
  The predicate on numbers is not symmetric: its band of one percent is taken around
  the first argument, which is the value of the ground truth
  (\<^verbatim>\<open>correctToken.isEqual(claimedToken)\<close>). 99005 is within one percent of 100000,
  since \<open>99000 \<le> 99005\<close>, but 100000 is not within one percent of 99005, since
  \<open>99995.05 < 100000\<close>.
\<close>

theorem eq_real_not_symmetric:
  "eq_real 100000 99005 \<and> \<not> eq_real 99005 100000"
  by (simp add: eq_real_def)

section \<open>The validity flag\<close>

text \<open>
  C7. On a valid tokenizer \<^verbatim>\<open>next()\<close> returns a token and raises nothing, and the
  tokenizer is invalid afterwards exactly when the token is \<open>EndOfFile\<close> or
  \<open>Invalid\<close>. On an invalid tokenizer \<^verbatim>\<open>next()\<close> raises the logic error and leaves
  the tokenizer as it was, so that every later call, after any number \<open>n\<close> of calls,
  raises it again.
\<close>

theorem validity_flag:
  "(mIsValid s \<longrightarrow>
      (\<exists>t s'. next_token P s = (Inr t, s') \<and>
               (mIsValid s' = False \<longleftrightarrow> kind t = EndOfFile \<or> kind t = Invalid))) \<and>
   (\<not> mIsValid s \<longrightarrow>
      (\<forall>n. next_token P (after_calls P n s) =
             (Inl (logic_error ''Tokenizer is not valid anymore.''), s)))"
proof (intro conjI impI allI)
  assume v: "mIsValid s"
  then obtain t s' where n: "next_token P s = (Inr t, s')"
    using next_token_returns by blast
  from next_token_valid_iff [OF n] have "mIsValid s' = False \<longleftrightarrow> kind t = EndOfFile \<or> kind t = Invalid"
    by auto
  with n show "\<exists>t s'. next_token P s = (Inr t, s') \<and>
      (mIsValid s' = False \<longleftrightarrow> kind t = EndOfFile \<or> kind t = Invalid)"
    by blast
next
  fix n
  assume v: "\<not> mIsValid s"
  have "after_calls P n s = s"
    unfolding after_calls_def by (induction n) (simp_all add: next_token_invalid [OF v])
  then show "next_token P (after_calls P n s) =
      (Inl (logic_error ''Tokenizer is not valid anymore.''), s)"
    by (simp add: next_token_invalid [OF v])
qed

theorem validity_flag_witness:
  "mIsValid (Tokenizer_on ''a'') \<and>
   next_token char_profile (Tokenizer_on ''a'') =
     (Inr \<lparr>mKind = Valid, mValue = CHR ''a'', mLine = 1, mToken = 1\<rparr>,
      \<lparr>mInput = [], mIsValid = True, mLine = 1, mToken = 2\<rparr>) \<and>
   next_token char_profile \<lparr>mInput = [], mIsValid = True, mLine = 1, mToken = 2\<rparr> =
     (Inr \<lparr>mKind = EndOfFile, mValue = CHR 0x00, mLine = 1, mToken = 2\<rparr>,
      \<lparr>mInput = [], mIsValid = False, mLine = 1, mToken = 2\<rparr>) \<and>
   \<not> mIsValid \<lparr>mInput = [], mIsValid = False, mLine = 1, mToken = 2\<rparr> \<and>
   next_token char_profile
     (after_calls char_profile 3
        \<lparr>mInput = [], mIsValid = False, mLine = 1, mToken = 2\<rparr>) =
     (Inl (logic_error ''Tokenizer is not valid anymore.''),
      \<lparr>mInput = [], mIsValid = False, mLine = 1, mToken = 2\<rparr>)"
proof -
  have a: "mIsValid (Tokenizer_on ''a'')"
    by (simp add: Tokenizer_on_def)
  have b: "\<not> mIsValid \<lparr>mInput = [], mIsValid = False, mLine = 1, mToken = 2\<rparr>"
    by simp
  have c: "next_token char_profile (Tokenizer_on ''a'') =
     (Inr \<lparr>mKind = Valid, mValue = CHR ''a'', mLine = 1, mToken = 1\<rparr>,
      \<lparr>mInput = [], mIsValid = True, mLine = 1, mToken = 2\<rparr>)"
    by code_simp
  have d: "next_token char_profile \<lparr>mInput = [], mIsValid = True, mLine = 1, mToken = 2\<rparr> =
     (Inr \<lparr>mKind = EndOfFile, mValue = CHR 0x00, mLine = 1, mToken = 2\<rparr>,
      \<lparr>mInput = [], mIsValid = False, mLine = 1, mToken = 2\<rparr>)"
    by code_simp
  from validity_flag [of "\<lparr>mInput = [], mIsValid = False, mLine = 1, mToken = 2\<rparr>" char_profile] b
  have e: "next_token char_profile
     (after_calls char_profile 3
        \<lparr>mInput = [], mIsValid = False, mLine = 1, mToken = 2\<rparr>) =
     (Inl (logic_error ''Tokenizer is not valid anymore.''),
      \<lparr>mInput = [], mIsValid = False, mLine = 1, mToken = 2\<rparr>)"
    by blast
  from validity_flag [of "Tokenizer_on ''a''" char_profile] a
  have "\<exists>t s'. next_token char_profile (Tokenizer_on ''a'') = (Inr t, s')"
    by blast
  with a b c d e show ?thesis by simp
qed

section \<open>Scenario B\<close>

text \<open>
  C2, as the code has it. With the difference shown and the test case not hidden, the
  claimed output \<^verbatim>\<open>"1 2 4\n"\<close> against the ground truth \<^verbatim>\<open>"1 2 3\n"\<close> makes the
  character checker print the line
  \<^verbatim>\<open>0|Unexpected '4' at line 1, token 5, while expecting '3'.\<close>:
  the claimed token in its long string, with its own line and token number. The two
  \<open>Space\<close> tokens before it are counted, so \<^verbatim>\<open>4\<close> is token 5 of line 1. This line
  is all the output when the claimed output is not echoed, and the first line of it
  when it is.
\<close>

theorem scenario_B:
  "out (diff_checker_base (char_checker True False) (command_line ''0'')
          (two_files (Some ''1 2 4\<newline>'') (Some ''1 2 3\<newline>''))) =
     ''0|Unexpected '4' at line 1, token 5, while expecting '3'.\<newline>'' \<and>
   out (diff_checker_base (char_checker True True) (command_line ''0'')
          (two_files (Some ''1 2 4\<newline>'') (Some ''1 2 3\<newline>''))) =
     ''0|Unexpected '4' at line 1, token 5, while expecting '3'.\<newline>'' @
     ''Your output (as parsed):\<newline>'' @ ''1 2 4<end>\<newline>''"
  by code_simp

text \<open>
  The line of the specification, with \<^verbatim>\<open>token 3\<close>, is not what is printed, whether
  the claimed output is echoed or not.
\<close>

theorem scenario_B_not_token_3:
  "out (diff_checker_base (char_checker True False) (command_line ''0'')
          (two_files (Some ''1 2 4\<newline>'') (Some ''1 2 3\<newline>''))) \<noteq>
     ''0|Unexpected '4' at line 1, token 3, while expecting '3'.\<newline>'' \<and>
   take 57
     (out (diff_checker_base (char_checker True True) (command_line ''0'')
             (two_files (Some ''1 2 4\<newline>'') (Some ''1 2 3\<newline>'')))) \<noteq>
     ''0|Unexpected '4' at line 1, token 3, while expecting '3'.\<newline>''"
  by code_simp

section \<open>Spaces inside a line\<close>






section \<open>Positions of successive tokens\<close>

lemma word_succ_less:
  fixes x :: Pos
  assumes "unat x + 1 < 2 ^ 64"
  shows "x < x + 1" and "unat (x + 1) = unat x + 1"
proof -
  have "unat x + unat (1 :: Pos) < 2 ^ LENGTH(64)" using assms by simp
  then have "unat (x + 1) = unat x + unat (1 :: Pos)" by (simp only: unat_add_lem)
  then show "unat (x + 1) = unat x + 1" by simp
  then show "x < x + 1" by (simp add: word_less_nat_alt)
qed

lemma in_bounds_step:
  assumes N: "N < 2 ^ 64" and w: "in_bounds N s" and n: "next_token P s = (Inr t, s')"
    and v: "mIsValid s'"
  shows "in_bounds N s'"
    and "mLine s \<le> mLine s'"
    and "kind t = Newline \<longrightarrow> mToken s' = 1"
    and "kind t = Valid \<or> kind t = Space \<longrightarrow> mLine s' = mLine s \<and> mToken s < mToken s'"
proof -
  have vs: "mIsValid s" using n by (rule next_token_was_valid)
  have len: "length (mInput s') < length (mInput s)"
    using next_token_left [OF n] v vs by (simp add: left_def)
  have k: "kind t = Newline \<or> kind t = Valid \<or> kind t = Space"
    using next_token_valid_iff [OF n] v by (cases "kind t") auto
  note st = next_token_state [OF n]
  have l1: "unat (mLine s) + 1 < 2 ^ 64" and t1: "unat (mToken s) + 1 < 2 ^ 64"
    using w N len by (auto simp: in_bounds_def)
  show "in_bounds N s'"
    using k st w len word_succ_less(2) [OF l1] word_succ_less(2) [OF t1]
    by (auto simp: in_bounds_def)
  show "mLine s \<le> mLine s'"
    using k st word_succ_less(1) [OF l1] by auto
  show "kind t = Newline \<longrightarrow> mToken s' = 1"
    using st by simp
  show "kind t = Valid \<or> kind t = Space \<longrightarrow> mLine s' = mLine s \<and> mToken s < mToken s'"
    using st word_succ_less(1) [OF t1] by auto
qed

lemma tokens_in_order:
  "N < 2 ^ 64 \<Longrightarrow> in_bounds N s \<Longrightarrow> successively in_order (tokens P s)"
proof (induction "left s" arbitrary: s rule: less_induct)
  case less
  show ?case
  proof (cases "next_token P s")
    case (Pair r s')
    show ?thesis
    proof (cases r)
      case (Inl e)
      with Pair show ?thesis by (simp add: tokens_error)
    next
      case (Inr t)
      with Pair have n: "next_token P s = (Inr t, s')" by simp
      have ts: "tokens P s = t # tokens P s'" using n by (rule tokens_step)
      show ?thesis
      proof (cases "mIsValid s'")
        case False
        then show ?thesis by (simp add: ts tokens_invalid)
      next
        case True
        note ws = in_bounds_step [OF less.prems(1) less.prems(2) n True]
        have IH: "successively in_order (tokens P s')"
          using less.hyps [OF next_token_left [OF n] less.prems(1) ws(1)] .
        show ?thesis
        proof (cases "tokens P s'")
          case Nil
          then show ?thesis by (simp add: ts)
        next
          case (Cons u us)
          from tokens_head [OF Cons] next_token_pos [OF n] ws(2,3,4)
          have "in_order t u" by (simp add: in_order_def)
          with IH Cons show ?thesis by (simp add: ts)
        qed
      qed
    qed
  qed
qed

text \<open>
  C6. Take a stream of fewer than \<open>2^64 - 1\<close> characters, so that the 64-bit counters
  cannot wrap around, and two tokens that \<^verbatim>\<open>next()\<close> returns one after the other.
  The line of the second is not less than the line of the first; after a \<open>Newline\<close>
  token the token number is 1; after a \<open>Valid\<close> or a \<open>Space\<close> token the line is the
  same and the token number is strictly greater.
\<close>

theorem token_positions:
  assumes "length input < 2 ^ 64 - 1" and "Suc i < length (tokens P (Tokenizer_on input))"
  shows "line (tokens P (Tokenizer_on input) ! i) \<le> line (tokens P (Tokenizer_on input) ! Suc i) \<and>
         (kind (tokens P (Tokenizer_on input) ! i) = Newline \<longrightarrow>
            token (tokens P (Tokenizer_on input) ! Suc i) = 1) \<and>
         (kind (tokens P (Tokenizer_on input) ! i) = Valid \<or>
          kind (tokens P (Tokenizer_on input) ! i) = Space \<longrightarrow>
            line (tokens P (Tokenizer_on input) ! Suc i) = line (tokens P (Tokenizer_on input) ! i) \<and>
            token (tokens P (Tokenizer_on input) ! i) < token (tokens P (Tokenizer_on input) ! Suc i))"
proof -
  have N: "Suc (length input) < 2 ^ 64" using assms(1) by simp
  have "in_bounds (Suc (length input)) (Tokenizer_on input)"
    by (simp add: in_bounds_def Tokenizer_on_def)
  from tokens_in_order [OF N this]
  have "successively in_order (tokens P (Tokenizer_on input))" .
  from successively_nth [OF this assms(2)] show ?thesis
    by (simp add: in_order_def)
qed

theorem token_positions_witness:
  "length ''a\<newline>b c'' < 2 ^ 64 - 1 \<and>
   tokens char_profile (Tokenizer_on ''a\<newline>b c'') =
     [\<lparr>mKind = Valid, mValue = CHR ''a'', mLine = 1, mToken = 1\<rparr>,
      \<lparr>mKind = Newline, mValue = CHR 0x00, mLine = 1, mToken = 2\<rparr>,
      \<lparr>mKind = Valid, mValue = CHR ''b'', mLine = 2, mToken = 1\<rparr>,
      \<lparr>mKind = Space, mValue = CHR 0x00, mLine = 2, mToken = 2\<rparr>,
      \<lparr>mKind = Valid, mValue = CHR ''c'', mLine = 2, mToken = 3\<rparr>,
      \<lparr>mKind = EndOfFile, mValue = CHR 0x00, mLine = 2, mToken = 4\<rparr>] \<and>
   line (tokens char_profile (Tokenizer_on ''a\<newline>b c'') ! 1)
     \<le> line (tokens char_profile (Tokenizer_on ''a\<newline>b c'') ! Suc 1) \<and>
   token (tokens char_profile (Tokenizer_on ''a\<newline>b c'') ! Suc 1) = 1 \<and>
   token (tokens char_profile (Tokenizer_on ''a\<newline>b c'') ! 3)
     < token (tokens char_profile (Tokenizer_on ''a\<newline>b c'') ! Suc 3)"
proof -
  have len: "length ''a\<newline>b c'' < 2 ^ 64 - 1" by simp
  have ts: "tokens char_profile (Tokenizer_on ''a\<newline>b c'') =
     [\<lparr>mKind = Valid, mValue = CHR ''a'', mLine = 1, mToken = 1\<rparr>,
      \<lparr>mKind = Newline, mValue = CHR 0x00, mLine = 1, mToken = 2\<rparr>,
      \<lparr>mKind = Valid, mValue = CHR ''b'', mLine = 2, mToken = 1\<rparr>,
      \<lparr>mKind = Space, mValue = CHR 0x00, mLine = 2, mToken = 2\<rparr>,
      \<lparr>mKind = Valid, mValue = CHR ''c'', mLine = 2, mToken = 3\<rparr>,
      \<lparr>mKind = EndOfFile, mValue = CHR 0x00, mLine = 2, mToken = 4\<rparr>]"
    by code_simp
  have i1: "Suc 1 < length (tokens char_profile (Tokenizer_on ''a\<newline>b c''))"
    and i3: "Suc 3 < length (tokens char_profile (Tokenizer_on ''a\<newline>b c''))"
    by (simp_all add: ts)
  have k1: "kind (tokens char_profile (Tokenizer_on ''a\<newline>b c'') ! 1) = Newline"
    and k3: "kind (tokens char_profile (Tokenizer_on ''a\<newline>b c'') ! 3) = Space"
    by (simp_all add: ts kind_def)
  from token_positions [OF len i1] k1 token_positions [OF len i3] k3 len ts
  show ?thesis by simp
qed

section \<open>The loop of the checker\<close>

lemma after_calls_0: "after_calls P 0 s = s"
  by (simp add: after_calls_def)

lemma after_calls_Suc:
  "next_token P s = (r, s') \<Longrightarrow> after_calls P (Suc n) s = after_calls P n s'"
  by (simp add: after_calls_def funpow_Suc_right del: funpow.simps)

lemma isEqual_kind: "isEqual P a b \<Longrightarrow> kind a = kind b"
  by (auto simp: isEqual_def kind_def split: if_splits)

lemma tokens_valid_nonempty: "mIsValid s \<Longrightarrow> tokens P s \<noteq> []"
  using next_token_returns [of s P] by (auto simp: tokens_step)

text \<open>Only the last token of a stream is \<open>EndOfFile\<close> or \<open>Invalid\<close>.\<close>

lemma tokens_terminal:
  "Suc i < length (tokens P s) \<Longrightarrow>
     kind (tokens P s ! i) \<noteq> EndOfFile \<and> kind (tokens P s ! i) \<noteq> Invalid"
proof (induction "left s" arbitrary: s i rule: less_induct)
  case less
  show ?case
  proof (cases "next_token P s")
    case (Pair r s')
    show ?thesis
    proof (cases r)
      case (Inl e)
      with Pair less.prems show ?thesis by (simp add: tokens_error)
    next
      case (Inr t)
      with Pair have n: "next_token P s = (Inr t, s')" by simp
      have ts: "tokens P s = t # tokens P s'" using n by (rule tokens_step)
      show ?thesis
      proof (cases i)
        case 0
        with less.prems ts have "tokens P s' \<noteq> []" by auto
        then have "mIsValid s'" using tokens_invalid by blast
        with next_token_valid_iff [OF n] 0 ts show ?thesis by simp
      next
        case (Suc j)
        with less.prems ts have "Suc j < length (tokens P s')" by simp
        from less.hyps [OF next_token_left [OF n] this] Suc ts show ?thesis by simp
      qed
    qed
  qed
qed

text \<open>Call number \<open>i\<close> returns token number \<open>i\<close>.\<close>

lemma after_calls_token:
  "i < length (tokens P s) \<Longrightarrow>
     next_token P (after_calls P i s) = (Inr (tokens P s ! i), after_calls P (Suc i) s)"
proof (induction i arbitrary: s)
  case 0
  show ?case
  proof (cases "next_token P s")
    case (Pair r s')
    show ?thesis
    proof (cases r)
      case (Inl e)
      with Pair 0 show ?thesis by (simp add: tokens_error)
    next
      case (Inr t)
      with Pair have n: "next_token P s = (Inr t, s')" by simp
      then show ?thesis
        by (simp add: tokens_step after_calls_0 after_calls_Suc [OF n])
    qed
  qed
next
  case (Suc i)
  show ?case
  proof (cases "next_token P s")
    case (Pair r s')
    show ?thesis
    proof (cases r)
      case (Inl e)
      with Pair Suc.prems show ?thesis by (simp add: tokens_error)
    next
      case (Inr t)
      with Pair have n: "next_token P s = (Inr t, s')" by simp
      with Suc.prems have "i < length (tokens P s')" by (simp add: tokens_step)
      from Suc.IH [OF this] n show ?thesis
        by (simp add: tokens_step after_calls_Suc [OF n])
    qed
  qed
qed

lemma after_calls_valid:
  "i < length (tokens P s) \<Longrightarrow>
     mIsValid (after_calls P (Suc i) s) =
       (kind (tokens P s ! i) \<noteq> EndOfFile \<and> kind (tokens P s ! i) \<noteq> Invalid)"
  using next_token_valid_iff [OF after_calls_token] .

text \<open>
  The loop of lines 125-137 appends the short strings of the next tokens of the
  claimed output, \<open>LookAhead - i\<close> of them at most, and leaves the last of them in
  \<^verbatim>\<open>claimedToken\<close>.
\<close>

lemma look_ahead_tokens:
  assumes "mIsValid claimed = (kind ct \<noteq> EndOfFile \<and> kind ct \<noteq> Invalid)"
  shows "fst (look_ahead C i ct claimed buf) =
           Inr (last (ct # take (nat (LookAhead C - i)) (tokens (Tokenizer_of C) claimed)),
                buf @ concat (map (sstr (Tokenizer_of C))
                                (take (nat (LookAhead C - i)) (tokens (Tokenizer_of C) claimed))))"
  using assms
proof (induction "nat (LookAhead C - i)" arbitrary: i ct claimed buf)
  case 0
  then have "\<not> i < LookAhead C" by simp
  with 0 show ?case by (subst look_ahead.simps) simp
next
  case (Suc m)
  then have lt: "i < LookAhead C" and m: "m = nat (LookAhead C - (i + 1))" by linarith+
  have S: "nat (LookAhead C - i) = Suc m" using Suc.hyps(2) by simp
  show ?case
  proof (cases "mIsValid claimed")
    case False
    with Suc.prems lt show ?thesis
      by (subst look_ahead.simps) (auto simp: tokens_invalid)
  next
    case True
    then obtain t claimed1 where n: "next_token (Tokenizer_of C) claimed = (Inr t, claimed1)"
      using next_token_returns by blast
    have ts: "tokens (Tokenizer_of C) claimed = t # tokens (Tokenizer_of C) claimed1"
      using n by (rule tokens_step)
    have IH: "fst (look_ahead C (i + 1) t claimed1 (buf @ sstr (Tokenizer_of C) t)) =
           Inr (last (t # take m (tokens (Tokenizer_of C) claimed1)),
                (buf @ sstr (Tokenizer_of C) t) @ concat (map (sstr (Tokenizer_of C))
                                (take m (tokens (Tokenizer_of C) claimed1))))"
      using Suc.hyps(1) [OF m next_token_valid_iff [OF n]] m by simp
    have "look_ahead C i ct claimed buf =
            look_ahead C (i + 1) t claimed1 (buf @ sstr (Tokenizer_of C) t)"
      using True Suc.prems lt n by (subst look_ahead.simps) simp
    with IH show ?thesis by (simp add: S ts)
  qed
qed

lemma diff_message_grade_0: "\<exists>m. diff_message C h ct gt = ''0|'' @ m"
  by (simp add: diff_message_def)

lemma mismatch_grade_0:
  assumes "mIsValid claimed = (kind ct \<noteq> EndOfFile \<and> kind ct \<noteq> Invalid)"
  shows "status (mismatch C h ct gt claimed buf) = Inr 0 \<and>
         take 2 (out (mismatch C h ct gt claimed buf)) = ''0|'' \<and>
         err (mismatch C h ct gt claimed buf) = []"
proof -
  obtain t b where "fst (look_ahead C 0 ct claimed buf) = Inr (t, b)"
    using look_ahead_tokens [OF assms, of C 0 buf] by simp
  then obtain s where "look_ahead C 0 ct claimed buf = (Inr (t, b), s)"
    by (cases "look_ahead C 0 ct claimed buf") simp
  moreover obtain m where "diff_message C h ct gt = ''0|'' @ m"
    using diff_message_grade_0 by blast
  ultimately show ?thesis
    by (simp add: mismatch_def Let_def)
qed

lemma compare_loop_step:
  assumes "next_token (Tokenizer_of C) claimed = (Inr ct, claimed1)"
    and "next_token (Tokenizer_of C) correct = (Inr gt, correct1)"
  shows "compare_loop C h claimed correct buf =
     (if kind gt = Invalid
      then \<lparr>out = [], err = ''Ground-truth file format is invalid.'' @ endl, status = Inr 1\<rparr>
      else if \<not> isEqual (Tokenizer_of C) gt ct
      then mismatch C h ct gt claimed1 (buf @ sstr (Tokenizer_of C) ct)
      else if kind gt = EndOfFile
      then \<lparr>out = ''1|Correct output.'', err = [], status = Inr 0\<rparr>
      else compare_loop C h claimed1 correct1 (buf @ sstr (Tokenizer_of C) ct))"
  using assms by (subst compare_loop.simps) (simp add: Let_def)

text \<open>
  The loop started on two valid tokenizers stops at some pair that it reaches, with
  the answer of that pair.
\<close>

lemma compare_loop_decides:
  assumes "mIsValid claimed" and "mIsValid correct"
  shows "\<exists>i. reaches (Tokenizer_of C) (tokens (Tokenizer_of C) correct)
                (tokens (Tokenizer_of C) claimed) i \<and>
             stops (Tokenizer_of C) (tokens (Tokenizer_of C) correct)
                (tokens (Tokenizer_of C) claimed) i \<and>
             compare_loop C h claimed correct buf =
               verdict C h claimed buf (tokens (Tokenizer_of C) correct)
                 (tokens (Tokenizer_of C) claimed) i"
  using assms
proof (induction "left correct" arbitrary: claimed correct buf rule: less_induct)
  case less
  let ?P = "Tokenizer_of C"
  obtain ct claimed1 where nc: "next_token ?P claimed = (Inr ct, claimed1)"
    using next_token_returns [OF less.prems(1)] by blast
  obtain gt correct1 where ng: "next_token ?P correct = (Inr gt, correct1)"
    using next_token_returns [OF less.prems(2)] by blast
  have cs: "tokens ?P claimed = ct # tokens ?P claimed1" using nc by (rule tokens_step)
  have gs: "tokens ?P correct = gt # tokens ?P correct1" using ng by (rule tokens_step)
  note step = compare_loop_step [OF nc ng, of h buf]
  show ?case
  proof (cases "kind gt = Invalid \<or> \<not> isEqual ?P gt ct \<or> kind gt = EndOfFile")
    case True
    have "reaches ?P (tokens ?P correct) (tokens ?P claimed) 0"
      by (simp add: reaches_def cs gs)
    moreover have "stops ?P (tokens ?P correct) (tokens ?P claimed) 0"
      using True by (simp add: stops_def cs gs)
    moreover have "compare_loop C h claimed correct buf =
        verdict C h claimed buf (tokens ?P correct) (tokens ?P claimed) 0"
      using True step
      by (auto simp: verdict_def cs gs after_calls_Suc [OF nc] after_calls_0)
    ultimately show ?thesis by blast
  next
    case False
    then have eq: "isEqual ?P gt ct" and k: "kind gt \<noteq> Invalid" "kind gt \<noteq> EndOfFile"
      by auto
    have v1: "mIsValid correct1" using next_token_valid_iff [OF ng] k by simp
    have v2: "mIsValid claimed1"
      using next_token_valid_iff [OF nc] k isEqual_kind [OF eq] by simp
    from less.hyps [OF next_token_left [OF ng] v2 v1, of "buf @ sstr ?P ct"]
    obtain i where r: "reaches ?P (tokens ?P correct1) (tokens ?P claimed1) i"
      and s: "stops ?P (tokens ?P correct1) (tokens ?P claimed1) i"
      and c: "compare_loop C h claimed1 correct1 (buf @ sstr ?P ct) =
                verdict C h claimed1 (buf @ sstr ?P ct) (tokens ?P correct1)
                  (tokens ?P claimed1) i"
      by blast
    have "reaches ?P (tokens ?P correct) (tokens ?P claimed) (Suc i)"
      using r eq by (auto simp: reaches_def cs gs less_Suc_eq_0_disj)
    moreover have "stops ?P (tokens ?P correct) (tokens ?P claimed) (Suc i)"
      using s by (simp add: stops_def cs gs)
    moreover have "compare_loop C h claimed correct buf =
        verdict C h claimed buf (tokens ?P correct) (tokens ?P claimed) (Suc i)"
      using step eq k c
      by (simp add: verdict_def cs gs after_calls_Suc [OF nc])
    ultimately show ?thesis by blast
  qed
qed

text \<open>There is one such pair only, so the loop stops at the first of them.\<close>

lemma stop_unique:
  assumes "reaches P (tokens P correct) cs i" and "stops P (tokens P correct) cs i"
    and "reaches P (tokens P correct) cs k" and "stops P (tokens P correct) cs k"
  shows "i = k"
proof -
  have *: False
    if a: "a < b" and rb: "reaches P (tokens P correct) cs b"
      and sa: "stops P (tokens P correct) cs a" for a b
  proof -
    from rb a have "Suc a < length (tokens P correct)"
      and "isEqual P (tokens P correct ! a) (cs ! a)"
      by (auto simp: reaches_def)
    with tokens_terminal [of a P correct] sa show False by (simp add: stops_def)
  qed
  show ?thesis
    using * [of i k] * [of k i] assms by (meson nat_neq_iff)
qed

lemma stops_verdict:
  assumes "reaches (Tokenizer_of C) (tokens (Tokenizer_of C) correct)
             (tokens (Tokenizer_of C) claimed) i"
    and "stops (Tokenizer_of C) (tokens (Tokenizer_of C) correct)
             (tokens (Tokenizer_of C) claimed) i"
    and "mIsValid claimed" and "mIsValid correct"
  shows "compare_loop C h claimed correct buf =
      verdict C h claimed buf (tokens (Tokenizer_of C) correct)
        (tokens (Tokenizer_of C) claimed) i"
  using compare_loop_decides [OF assms(3,4), of C h buf] stop_unique [OF assms(1,2)] by blast

lemma Tokenizer_on_valid: "mIsValid (Tokenizer_on input)"
  by (simp add: Tokenizer_on_def)

lemma verdict_mismatch:
  assumes "i < length cs" and "cs = tokens (Tokenizer_of C) claimed"
    and "kind (gs ! i) \<noteq> Invalid" and "\<not> isEqual (Tokenizer_of C) (gs ! i) (cs ! i)"
  shows "verdict C h claimed buf gs cs i =
           mismatch C h (cs ! i) (gs ! i) (after_calls (Tokenizer_of C) (Suc i) claimed)
             (buf @ concat (map (sstr (Tokenizer_of C)) (take (Suc i) cs)))"
    and "status (verdict C h claimed buf gs cs i) = Inr 0"
    and "take 2 (out (verdict C h claimed buf gs cs i)) = ''0|''"
    and "err (verdict C h claimed buf gs cs i) = []"
proof -
  show v: "verdict C h claimed buf gs cs i =
           mismatch C h (cs ! i) (gs ! i) (after_calls (Tokenizer_of C) (Suc i) claimed)
             (buf @ concat (map (sstr (Tokenizer_of C)) (take (Suc i) cs)))"
    using assms(3,4) by (simp add: verdict_def)
  have "mIsValid (after_calls (Tokenizer_of C) (Suc i) claimed) =
       (kind (cs ! i) \<noteq> EndOfFile \<and> kind (cs ! i) \<noteq> Invalid)"
    using after_calls_valid [of i "Tokenizer_of C" claimed] assms(1,2) by simp
  note g = mismatch_grade_0 [OF this]
  show "status (verdict C h claimed buf gs cs i) = Inr 0"
    and "take 2 (out (verdict C h claimed buf gs cs i)) = ''0|''"
    and "err (verdict C h claimed buf gs cs i) = []"
    using g by (simp_all add: v)
qed

section \<open>The grade\<close>

text \<open>
  C1, as the code has it. Let \<open>gs\<close> be the tokens of the ground truth and \<open>cs\<close>
  the tokens of the claimed output, and let the loop start on the two streams with an
  empty \<^verbatim>\<open>checkerOutput\<close>.
  \<^item> The loop writes \<^verbatim>\<open>1|Correct output.\<close> exactly when each token of the ground
    truth, up to and including its last one, which has to be \<open>EndOfFile\<close>, is
    \<^verbatim>\<open>isEqual\<close> to the claimed token at the same place; and then it writes nothing
    else and returns 0.
  \<^item> When pair \<open>i\<close> is the first pair of unequal tokens and its ground-truth token
    is not \<open>Invalid\<close>, the loop ends in the body of the mismatch at that pair, with
    the claimed tokenizer after \<open>i + 1\<close> calls and the short strings of the first
    \<open>i + 1\<close> claimed tokens in \<^verbatim>\<open>checkerOutput\<close>; what it writes starts with
    \<^verbatim>\<open>0|\<close> and it returns 0. Of the ground truth only the token of pair \<open>i\<close>
    enters the result, so nothing after it is compared.
  \<^item> When the loop comes to a pair whose ground-truth token is \<open>Invalid\<close>, all pairs
    before it being equal, it writes nothing to \<^verbatim>\<open>cout\<close>, one line to \<^verbatim>\<open>cerr\<close>,
    and returns 1, whatever the claimed token of that pair is.
  The text \<^verbatim>\<open>1|Correct output.\<close> is written without a line feed after it.
\<close>

theorem lock_step_comparison:
  "(out (compare_loop C h (Tokenizer_on claimed) (Tokenizer_on correct) []) = ''1|Correct output.''
      \<longleftrightarrow>
    length (tokens (Tokenizer_of C) (Tokenizer_on correct))
      \<le> length (tokens (Tokenizer_of C) (Tokenizer_on claimed)) \<and>
    (\<forall>i < length (tokens (Tokenizer_of C) (Tokenizer_on correct)).
       isEqual (Tokenizer_of C) (tokens (Tokenizer_of C) (Tokenizer_on correct) ! i)
         (tokens (Tokenizer_of C) (Tokenizer_on claimed) ! i)) \<and>
    kind (last (tokens (Tokenizer_of C) (Tokenizer_on correct))) = EndOfFile) \<and>
   (out (compare_loop C h (Tokenizer_on claimed) (Tokenizer_on correct) []) = ''1|Correct output.''
      \<longrightarrow> compare_loop C h (Tokenizer_on claimed) (Tokenizer_on correct) [] =
            \<lparr>out = ''1|Correct output.'', err = [], status = Inr 0\<rparr>) \<and>
   (\<forall>i. i < length (tokens (Tokenizer_of C) (Tokenizer_on correct)) \<and>
        i < length (tokens (Tokenizer_of C) (Tokenizer_on claimed)) \<and>
        (\<forall>j<i. isEqual (Tokenizer_of C) (tokens (Tokenizer_of C) (Tokenizer_on correct) ! j)
                 (tokens (Tokenizer_of C) (Tokenizer_on claimed) ! j)) \<and>
        \<not> isEqual (Tokenizer_of C) (tokens (Tokenizer_of C) (Tokenizer_on correct) ! i)
            (tokens (Tokenizer_of C) (Tokenizer_on claimed) ! i) \<and>
        kind (tokens (Tokenizer_of C) (Tokenizer_on correct) ! i) \<noteq> Invalid
      \<longrightarrow>
        compare_loop C h (Tokenizer_on claimed) (Tokenizer_on correct) [] =
          mismatch C h (tokens (Tokenizer_of C) (Tokenizer_on claimed) ! i)
            (tokens (Tokenizer_of C) (Tokenizer_on correct) ! i)
            (after_calls (Tokenizer_of C) (Suc i) (Tokenizer_on claimed))
            (concat (map (sstr (Tokenizer_of C))
                       (take (Suc i) (tokens (Tokenizer_of C) (Tokenizer_on claimed))))) \<and>
        take 2 (out (compare_loop C h (Tokenizer_on claimed) (Tokenizer_on correct) [])) = ''0|'' \<and>
        status (compare_loop C h (Tokenizer_on claimed) (Tokenizer_on correct) []) = Inr 0) \<and>
   (\<forall>i. i < length (tokens (Tokenizer_of C) (Tokenizer_on correct)) \<and>
        i < length (tokens (Tokenizer_of C) (Tokenizer_on claimed)) \<and>
        (\<forall>j<i. isEqual (Tokenizer_of C) (tokens (Tokenizer_of C) (Tokenizer_on correct) ! j)
                 (tokens (Tokenizer_of C) (Tokenizer_on claimed) ! j)) \<and>
        kind (tokens (Tokenizer_of C) (Tokenizer_on correct) ! i) = Invalid
      \<longrightarrow>
        compare_loop C h (Tokenizer_on claimed) (Tokenizer_on correct) [] =
          \<lparr>out = [], err = ''Ground-truth file format is invalid.'' @ endl, status = Inr 1\<rparr>)"
proof -
  let ?P = "Tokenizer_of C"
  let ?cl = "Tokenizer_on claimed" and ?co = "Tokenizer_on correct"
  let ?cs = "tokens ?P ?cl" and ?gs = "tokens ?P ?co"
  let ?R = "compare_loop C h ?cl ?co []"
  let ?ok = "\<lparr>out = ''1|Correct output.'', err = [], status = Inr (0::int)\<rparr>"
  let ?cond = "length ?gs \<le> length ?cs \<and> (\<forall>i < length ?gs. isEqual ?P (?gs ! i) (?cs ! i)) \<and>
     kind (last ?gs) = EndOfFile"
  note vcl = Tokenizer_on_valid [of claimed] and vco = Tokenizer_on_valid [of correct]
  have ne: "?gs \<noteq> []" using vco by (rule tokens_valid_nonempty)
  have A: "?cond" "?R = ?ok" if o: "out ?R = ''1|Correct output.''"
  proof -
    from compare_loop_decides [OF vcl vco, of C h "[]"]
    obtain i where r: "reaches ?P ?gs ?cs i" and s: "stops ?P ?gs ?cs i"
      and v: "?R = verdict C h ?cl [] ?gs ?cs i"
      by blast
    from r have i: "i < length ?gs" "i < length ?cs" by (simp_all add: reaches_def)
    have k: "kind (?gs ! i) \<noteq> Invalid"
      using o v by (auto simp: verdict_def)
    have e: "isEqual ?P (?gs ! i) (?cs ! i)"
    proof (rule ccontr)
      assume "\<not> isEqual ?P (?gs ! i) (?cs ! i)"
      from verdict_mismatch(3) [OF i(2) refl k this, of h "[]"] o v show False by simp
    qed
    from s k e have eof: "kind (?gs ! i) = EndOfFile" by (simp add: stops_def)
    have len: "length ?gs = Suc i"
      using tokens_terminal [of i ?P ?co] eof i by (cases "Suc i < length ?gs") auto
    have "last ?gs = ?gs ! i" using ne by (simp add: last_conv_nth len)
    moreover have "isEqual ?P (?gs ! j) (?cs ! j)" if "j < Suc i" for j
      using r e that by (cases "j = i") (auto simp: reaches_def)
    ultimately show ?cond using eof len i by simp
    show "?R = ?ok" using v k e by (simp add: verdict_def)
  qed
  have B: "?R = ?ok" if c: ?cond
  proof -
    let ?i = "length ?gs - 1"
    have lst: "last ?gs = ?gs ! ?i" using ne by (simp add: last_conv_nth)
    have pos: "0 < length ?gs" using ne by simp
    then have i: "?i < length ?gs" "?i < length ?cs" using c by linarith+
    have "reaches ?P ?gs ?cs ?i" using c i by (simp add: reaches_def)
    moreover have "stops ?P ?gs ?cs ?i" using c lst by (simp add: stops_def)
    ultimately have "?R = verdict C h ?cl [] ?gs ?cs ?i"
      using stops_verdict vcl vco by blast
    moreover have "isEqual ?P (?gs ! ?i) (?cs ! ?i)" using c i by blast
    ultimately show ?thesis using c lst by (simp add: verdict_def)
  qed
  have D: "?R = mismatch C h (?cs ! i) (?gs ! i) (after_calls ?P (Suc i) ?cl)
                  (concat (map (sstr ?P) (take (Suc i) ?cs))) \<and>
           take 2 (out ?R) = ''0|'' \<and> status ?R = Inr 0"
    if i: "i < length ?gs" "i < length ?cs"
      and b: "\<forall>j<i. isEqual ?P (?gs ! j) (?cs ! j)"
      and n: "\<not> isEqual ?P (?gs ! i) (?cs ! i)" and k: "kind (?gs ! i) \<noteq> Invalid" for i
  proof -
    have "reaches ?P ?gs ?cs i" using i b by (simp add: reaches_def)
    moreover have "stops ?P ?gs ?cs i" using n by (simp add: stops_def)
    ultimately have v: "?R = verdict C h ?cl [] ?gs ?cs i"
      using stops_verdict vcl vco by blast
    from verdict_mismatch [OF i(2) refl k n, of h "[]"] v show ?thesis by simp
  qed
  have E: "?R = \<lparr>out = [], err = ''Ground-truth file format is invalid.'' @ endl,
                  status = Inr 1\<rparr>"
    if i: "i < length ?gs" "i < length ?cs"
      and b: "\<forall>j<i. isEqual ?P (?gs ! j) (?cs ! j)"
      and k: "kind (?gs ! i) = Invalid" for i
  proof -
    have "reaches ?P ?gs ?cs i" using i b by (simp add: reaches_def)
    moreover have "stops ?P ?gs ?cs i" using k by (simp add: stops_def)
    ultimately have "?R = verdict C h ?cl [] ?gs ?cs i"
      using stops_verdict vcl vco by blast
    then show ?thesis using k by (simp add: verdict_def)
  qed
  show ?thesis
  proof (intro conjI impI allI)
    show "out ?R = ''1|Correct output.'' \<longleftrightarrow> ?cond"
    proof
      assume "out ?R = ''1|Correct output.''"
      then show ?cond by (rule A(1))
    next
      assume ?cond
      then have "?R = ?ok" by (rule B)
      then show "out ?R = ''1|Correct output.''" by simp
    qed
  next
    assume "out ?R = ''1|Correct output.''"
    then show "?R = ?ok" by (rule A(2))
  next
    fix i
    assume "i < length ?gs \<and> i < length ?cs \<and> (\<forall>j<i. isEqual ?P (?gs ! j) (?cs ! j)) \<and>
        \<not> isEqual ?P (?gs ! i) (?cs ! i) \<and> kind (?gs ! i) \<noteq> Invalid"
    then have "?R = mismatch C h (?cs ! i) (?gs ! i) (after_calls ?P (Suc i) ?cl)
                  (concat (map (sstr ?P) (take (Suc i) ?cs))) \<and>
           take 2 (out ?R) = ''0|'' \<and> status ?R = Inr 0"
      using D by blast
    then show "?R = mismatch C h (?cs ! i) (?gs ! i) (after_calls ?P (Suc i) ?cl)
                  (concat (map (sstr ?P) (take (Suc i) ?cs)))"
      and "take 2 (out ?R) = ''0|''" and "status ?R = Inr 0"
      by blast+
  next
    fix i
    assume "i < length ?gs \<and> i < length ?cs \<and> (\<forall>j<i. isEqual ?P (?gs ! j) (?cs ! j)) \<and>
        kind (?gs ! i) = Invalid"
    then show "?R = \<lparr>out = [], err = ''Ground-truth file format is invalid.'' @ endl,
                      status = Inr 1\<rparr>"
      using E by blast
  qed
qed


lemma EQ_char_profile: "EQ char_profile a b = (a = b)"
  by (simp add: char_profile_def eq_char_def)

lemma isEqual_char_refl: "isEqual char_profile t t"
  by (simp add: isEqual_def EQ_char_profile)

theorem lock_step_comparison_witness:
  "compare_loop (char_checker True False) False (Tokenizer_on ''1 2 3\<newline>'')
     (Tokenizer_on ''1 2 3\<newline>'') [] =
     \<lparr>out = ''1|Correct output.'', err = [], status = Inr 0\<rparr> \<and>
   take 2 (out (compare_loop (char_checker True False) False (Tokenizer_on ''1 2 4\<newline>'')
     (Tokenizer_on ''1 2 3\<newline>'') [])) = ''0|'' \<and>
   status (compare_loop (char_checker True False) False (Tokenizer_on ''1 2 4\<newline>'')
     (Tokenizer_on ''1 2 3\<newline>'') []) = Inr 0 \<and>
   compare_loop (char_checker True False) False (Tokenizer_on ''1 2'')
     (Tokenizer_on [CHR ''1'', CHR 0x01]) [] =
     \<lparr>out = [], err = ''Ground-truth file format is invalid.\<newline>'', status = Inr 1\<rparr>"
proof -
  have P: "Tokenizer_of (char_checker True False) = char_profile"
    by (simp add: char_checker_def)
  have gi: "tokens char_profile (Tokenizer_on [CHR ''1'', CHR 0x01]) =
     [\<lparr>mKind = Valid, mValue = CHR ''1'', mLine = 1, mToken = 1\<rparr>,
      \<lparr>mKind = Invalid, mValue = CHR 0x00, mLine = 1, mToken = 2\<rparr>]"
    by code_simp
  have ci: "tokens char_profile (Tokenizer_on ''1 2'') =
     [\<lparr>mKind = Valid, mValue = CHR ''1'', mLine = 1, mToken = 1\<rparr>,
      \<lparr>mKind = Space, mValue = CHR 0x00, mLine = 1, mToken = 2\<rparr>,
      \<lparr>mKind = Valid, mValue = CHR ''2'', mLine = 1, mToken = 3\<rparr>,
      \<lparr>mKind = EndOfFile, mValue = CHR 0x00, mLine = 1, mToken = 4\<rparr>]"
    by code_simp
  have c: "1 < length (tokens char_profile (Tokenizer_on [CHR ''1'', CHR 0x01])) \<and>
        1 < length (tokens char_profile (Tokenizer_on ''1 2'')) \<and>
        (\<forall>j<1. isEqual char_profile (tokens char_profile (Tokenizer_on [CHR ''1'', CHR 0x01]) ! j)
                 (tokens char_profile (Tokenizer_on ''1 2'') ! j)) \<and>
        kind (tokens char_profile (Tokenizer_on [CHR ''1'', CHR 0x01]) ! 1) = Invalid"
    by (simp add: gi ci isEqual_def EQ_char_profile kind_def)
  from lock_step_comparison [of "char_checker True False" False "''1 2''" "[CHR ''1'', CHR 0x01]"] c
  have "compare_loop (char_checker True False) False (Tokenizer_on ''1 2'')
     (Tokenizer_on [CHR ''1'', CHR 0x01]) [] =
     \<lparr>out = [], err = ''Ground-truth file format is invalid.'' @ endl, status = Inr 1\<rparr>"
    unfolding P by blast
  then have I: "compare_loop (char_checker True False) False (Tokenizer_on ''1 2'')
     (Tokenizer_on [CHR ''1'', CHR 0x01]) [] =
     \<lparr>out = [], err = ''Ground-truth file format is invalid.\<newline>'', status = Inr 1\<rparr>"
    by (simp add: endl_def)
  have gs: "tokens char_profile (Tokenizer_on ''1 2 3\<newline>'') =
     [\<lparr>mKind = Valid, mValue = CHR ''1'', mLine = 1, mToken = 1\<rparr>,
      \<lparr>mKind = Space, mValue = CHR 0x00, mLine = 1, mToken = 2\<rparr>,
      \<lparr>mKind = Valid, mValue = CHR ''2'', mLine = 1, mToken = 3\<rparr>,
      \<lparr>mKind = Space, mValue = CHR 0x00, mLine = 1, mToken = 4\<rparr>,
      \<lparr>mKind = Valid, mValue = CHR ''3'', mLine = 1, mToken = 5\<rparr>,
      \<lparr>mKind = EndOfFile, mValue = CHR 0x00, mLine = 1, mToken = 6\<rparr>]"
    by code_simp
  have cs: "tokens char_profile (Tokenizer_on ''1 2 4\<newline>'') =
     [\<lparr>mKind = Valid, mValue = CHR ''1'', mLine = 1, mToken = 1\<rparr>,
      \<lparr>mKind = Space, mValue = CHR 0x00, mLine = 1, mToken = 2\<rparr>,
      \<lparr>mKind = Valid, mValue = CHR ''2'', mLine = 1, mToken = 3\<rparr>,
      \<lparr>mKind = Space, mValue = CHR 0x00, mLine = 1, mToken = 4\<rparr>,
      \<lparr>mKind = Valid, mValue = CHR ''4'', mLine = 1, mToken = 5\<rparr>,
      \<lparr>mKind = EndOfFile, mValue = CHR 0x00, mLine = 1, mToken = 6\<rparr>]"
    by code_simp
  have a: "length (tokens char_profile (Tokenizer_on ''1 2 3\<newline>''))
      \<le> length (tokens char_profile (Tokenizer_on ''1 2 3\<newline>'')) \<and>
    (\<forall>i < length (tokens char_profile (Tokenizer_on ''1 2 3\<newline>'')).
       isEqual char_profile (tokens char_profile (Tokenizer_on ''1 2 3\<newline>'') ! i)
         (tokens char_profile (Tokenizer_on ''1 2 3\<newline>'') ! i)) \<and>
    kind (last (tokens char_profile (Tokenizer_on ''1 2 3\<newline>''))) = EndOfFile"
    by (simp add: isEqual_char_refl) (simp add: gs kind_def)
  have b: "4 < length (tokens char_profile (Tokenizer_on ''1 2 3\<newline>'')) \<and>
        4 < length (tokens char_profile (Tokenizer_on ''1 2 4\<newline>'')) \<and>
        (\<forall>j<4. isEqual char_profile (tokens char_profile (Tokenizer_on ''1 2 3\<newline>'') ! j)
                 (tokens char_profile (Tokenizer_on ''1 2 4\<newline>'') ! j)) \<and>
        \<not> isEqual char_profile (tokens char_profile (Tokenizer_on ''1 2 3\<newline>'') ! 4)
            (tokens char_profile (Tokenizer_on ''1 2 4\<newline>'') ! 4) \<and>
        kind (tokens char_profile (Tokenizer_on ''1 2 3\<newline>'') ! 4) \<noteq> Invalid"
  proof -
    have "isEqual char_profile (tokens char_profile (Tokenizer_on ''1 2 3\<newline>'') ! j)
                 (tokens char_profile (Tokenizer_on ''1 2 4\<newline>'') ! j)" if "j < 4" for j
    proof -
      from that consider "j = 0" | "j = 1" | "j = 2" | "j = 3" by linarith
      then show ?thesis
        by cases (simp_all add: gs cs isEqual_def EQ_char_profile)
    qed
    then have pre: "\<forall>j<4. isEqual char_profile (tokens char_profile (Tokenizer_on ''1 2 3\<newline>'') ! j)
                 (tokens char_profile (Tokenizer_on ''1 2 4\<newline>'') ! j)"
      by blast
    have rest: "4 < length (tokens char_profile (Tokenizer_on ''1 2 3\<newline>'')) \<and>
        4 < length (tokens char_profile (Tokenizer_on ''1 2 4\<newline>'')) \<and>
        \<not> isEqual char_profile (tokens char_profile (Tokenizer_on ''1 2 3\<newline>'') ! 4)
            (tokens char_profile (Tokenizer_on ''1 2 4\<newline>'') ! 4) \<and>
        kind (tokens char_profile (Tokenizer_on ''1 2 3\<newline>'') ! 4) \<noteq> Invalid"
      by (simp add: gs cs isEqual_def EQ_char_profile kind_def)
    from pre rest show ?thesis by blast
  qed
  from lock_step_comparison [of "char_checker True False" False "''1 2 3\<newline>''" "''1 2 3\<newline>''"] a
  have A: "compare_loop (char_checker True False) False (Tokenizer_on ''1 2 3\<newline>'')
     (Tokenizer_on ''1 2 3\<newline>'') [] =
     \<lparr>out = ''1|Correct output.'', err = [], status = Inr 0\<rparr>"
    unfolding P by blast
  from lock_step_comparison [of "char_checker True False" False "''1 2 4\<newline>''" "''1 2 3\<newline>''"] b
  have B: "take 2 (out (compare_loop (char_checker True False) False (Tokenizer_on ''1 2 4\<newline>'')
     (Tokenizer_on ''1 2 3\<newline>'') [])) = ''0|'' \<and>
   status (compare_loop (char_checker True False) False (Tokenizer_on ''1 2 4\<newline>'')
     (Tokenizer_on ''1 2 3\<newline>'') []) = Inr 0"
    unfolding P by blast
  from A B I show ?thesis by blast
qed

text \<open>
  C1 as the specification words it has a grade-0 line at the first unequal pair of
  every two streams. When the ground-truth token of that pair is \<open>Invalid\<close>, line
  81 returns 1 before the tokens are compared: nothing is written to \<^verbatim>\<open>cout\<close>.
  Here the claimed output is \<^verbatim>\<open>a\<close> and the ground truth is the byte 1, which
  \<^verbatim>\<open>val\<close> rejects.
\<close>

theorem invalid_ground_truth_pair:
  "tokens char_profile (Tokenizer_on ''a'') =
     [\<lparr>mKind = Valid, mValue = CHR ''a'', mLine = 1, mToken = 1\<rparr>,
      \<lparr>mKind = EndOfFile, mValue = CHR 0x00, mLine = 1, mToken = 2\<rparr>] \<and>
   tokens char_profile (Tokenizer_on [CHR 0x01]) =
     [\<lparr>mKind = Invalid, mValue = CHR 0x00, mLine = 1, mToken = 1\<rparr>] \<and>
   \<not> isEqual char_profile \<lparr>mKind = Invalid, mValue = CHR 0x00, mLine = 1, mToken = 1\<rparr>
       \<lparr>mKind = Valid, mValue = CHR ''a'', mLine = 1, mToken = 1\<rparr> \<and>
   compare_loop (char_checker True True) False (Tokenizer_on ''a'') (Tokenizer_on [CHR 0x01]) [] =
     \<lparr>out = [], err = ''Ground-truth file format is invalid.\<newline>'', status = Inr 1\<rparr>"
  by code_simp


section \<open>The exit status\<close>

lemma compare_loop_status:
  shows "status (compare_loop C h (Tokenizer_on claimed) (Tokenizer_on correct) []) = Inr 0 \<or> status (compare_loop C h (Tokenizer_on claimed) (Tokenizer_on correct) []) = Inr 1"
    and "status (compare_loop C h (Tokenizer_on claimed) (Tokenizer_on correct) []) = Inr 1 \<longleftrightarrow>
           (\<exists>i. reaches (Tokenizer_of C) (tokens (Tokenizer_of C) (Tokenizer_on correct))
                  (tokens (Tokenizer_of C) (Tokenizer_on claimed)) i \<and>
                kind (tokens (Tokenizer_of C) (Tokenizer_on correct) ! i) = Invalid)"
    and "status (compare_loop C h (Tokenizer_on claimed) (Tokenizer_on correct) []) = Inr 1 \<longrightarrow> out (compare_loop C h (Tokenizer_on claimed) (Tokenizer_on correct) []) = []"
    and "status (compare_loop C h (Tokenizer_on claimed) (Tokenizer_on correct) []) = Inr 0 \<longrightarrow>
           take 2 (out (compare_loop C h (Tokenizer_on claimed) (Tokenizer_on correct) [])) = ''0|'' \<or> take 2 (out (compare_loop C h (Tokenizer_on claimed) (Tokenizer_on correct) [])) = ''1|''"
proof -
  let ?P = "Tokenizer_of C"
  let ?cl = "Tokenizer_on claimed" and ?co = "Tokenizer_on correct"
  let ?cs = "tokens ?P ?cl" and ?gs = "tokens ?P ?co"
  note vcl = Tokenizer_on_valid [of claimed] and vco = Tokenizer_on_valid [of correct]
  from compare_loop_decides [OF vcl vco, of C h "[]"]
  obtain i where r: "reaches ?P ?gs ?cs i" and s: "stops ?P ?gs ?cs i"
    and v: "compare_loop C h (Tokenizer_on claimed) (Tokenizer_on correct) [] = verdict C h ?cl [] ?gs ?cs i"
    by blast
  from r have i: "i < length ?cs" by (simp add: reaches_def)
  have inv: "kind (?gs ! k) = Invalid \<Longrightarrow> reaches ?P ?gs ?cs k \<Longrightarrow> k = i" for k
    using stop_unique [OF _ _ r s, of k] by (simp add: stops_def)
  consider (invalid) "kind (?gs ! i) = Invalid"
    | (differ) "kind (?gs ! i) \<noteq> Invalid" "\<not> isEqual ?P (?gs ! i) (?cs ! i)"
    | (equal) "kind (?gs ! i) \<noteq> Invalid" "isEqual ?P (?gs ! i) (?cs ! i)"
    by blast
  then have "(status (compare_loop C h (Tokenizer_on claimed) (Tokenizer_on correct) []) = Inr 0 \<or> status (compare_loop C h (Tokenizer_on claimed) (Tokenizer_on correct) []) = Inr 1) \<and>
     (status (compare_loop C h (Tokenizer_on claimed) (Tokenizer_on correct) []) = Inr 1 \<longleftrightarrow>
           (\<exists>i. reaches ?P ?gs ?cs i \<and> kind (?gs ! i) = Invalid)) \<and>
     (status (compare_loop C h (Tokenizer_on claimed) (Tokenizer_on correct) []) = Inr 1 \<longrightarrow> out (compare_loop C h (Tokenizer_on claimed) (Tokenizer_on correct) []) = []) \<and>
     (status (compare_loop C h (Tokenizer_on claimed) (Tokenizer_on correct) []) = Inr 0 \<longrightarrow>
           take 2 (out (compare_loop C h (Tokenizer_on claimed) (Tokenizer_on correct) [])) = ''0|'' \<or> take 2 (out (compare_loop C h (Tokenizer_on claimed) (Tokenizer_on correct) [])) = ''1|'')"
  proof cases
    case invalid
    then have "compare_loop C h (Tokenizer_on claimed) (Tokenizer_on correct) [] =
        \<lparr>out = [], err = ''Ground-truth file format is invalid.'' @ endl, status = Inr 1\<rparr>"
      using v by (simp add: verdict_def)
    with invalid r show ?thesis by auto
  next
    case differ
    from verdict_mismatch(2,3) [OF i refl differ, of h "[]"] v
    have "status (compare_loop C h (Tokenizer_on claimed) (Tokenizer_on correct) []) = Inr 0" "take 2 (out (compare_loop C h (Tokenizer_on claimed) (Tokenizer_on correct) [])) = ''0|''"
      by simp_all
    with differ(1) inv show ?thesis by auto
  next
    case equal
    then have "compare_loop C h (Tokenizer_on claimed) (Tokenizer_on correct) [] = \<lparr>out = ''1|Correct output.'', err = [], status = Inr 0\<rparr>"
      using v by (simp add: verdict_def)
    with equal(1) inv show ?thesis by auto
  qed
  then show "status (compare_loop C h (Tokenizer_on claimed) (Tokenizer_on correct) []) = Inr 0 \<or> status (compare_loop C h (Tokenizer_on claimed) (Tokenizer_on correct) []) = Inr 1"
    and "status (compare_loop C h (Tokenizer_on claimed) (Tokenizer_on correct) []) = Inr 1 \<longleftrightarrow>
           (\<exists>i. reaches ?P ?gs ?cs i \<and> kind (?gs ! i) = Invalid)"
    and "status (compare_loop C h (Tokenizer_on claimed) (Tokenizer_on correct) []) = Inr 1 \<longrightarrow> out (compare_loop C h (Tokenizer_on claimed) (Tokenizer_on correct) []) = []"
    and "status (compare_loop C h (Tokenizer_on claimed) (Tokenizer_on correct) []) = Inr 0 \<longrightarrow>
           take 2 (out (compare_loop C h (Tokenizer_on claimed) (Tokenizer_on correct) [])) = ''0|'' \<or> take 2 (out (compare_loop C h (Tokenizer_on claimed) (Tokenizer_on correct) [])) = ''1|''"
    by blast+
qed


text \<open>
  C8, as the code has it. A run returns 0 or 1 and no exception leaves it. It
  returns 1, with nothing written to \<^verbatim>\<open>cout\<close>, exactly when
  \<^item> there are fewer than four arguments after the program name, or
  \<^item> the hidden flag is neither \<^verbatim>\<open>0\<close> nor \<^verbatim>\<open>1\<close>, or
  \<^item> the claimed output can be opened and the ground truth cannot, or
  \<^item> both can be opened and the loop reaches a pair, all pairs before it being equal,
    whose ground-truth token is \<open>Invalid\<close>.
  Otherwise it returns 0 and what it writes to \<^verbatim>\<open>cout\<close> starts with a grade,
  \<^verbatim>\<open>0|\<close> or \<^verbatim>\<open>1|\<close>. When the arguments are well formed and the claimed output
  cannot be opened, it writes \<^verbatim>\<open>0|Error opening the output file.\<close> and returns 0,
  whether the ground truth can be opened or not: line 57 comes before line 65.
\<close>

theorem exit_status:
  "(status (diff_checker_base C argv files) = Inr 0 \<or>
    status (diff_checker_base C argv files) = Inr 1) \<and>
   (status (diff_checker_base C argv files) = Inr 1 \<longleftrightarrow>
      length argv < 5 \<or>
      (argv ! 4 \<noteq> ''0'' \<and> argv ! 4 \<noteq> ''1'') \<or>
      (\<exists>claimed. files (argv ! 2) = Some claimed \<and>
         (files (argv ! 3) = None \<or>
          (\<exists>correct i. files (argv ! 3) = Some correct \<and>
             i < length (tokens (Tokenizer_of C) (Tokenizer_on correct)) \<and>
             i < length (tokens (Tokenizer_of C) (Tokenizer_on claimed)) \<and>
             (\<forall>j<i. isEqual (Tokenizer_of C) (tokens (Tokenizer_of C) (Tokenizer_on correct) ! j)
                      (tokens (Tokenizer_of C) (Tokenizer_on claimed) ! j)) \<and>
             kind (tokens (Tokenizer_of C) (Tokenizer_on correct) ! i) = Invalid)))) \<and>
   (status (diff_checker_base C argv files) = Inr 1 \<longrightarrow>
      out (diff_checker_base C argv files) = []) \<and>
   (status (diff_checker_base C argv files) = Inr 0 \<longrightarrow>
      take 2 (out (diff_checker_base C argv files)) = ''0|'' \<or>
      take 2 (out (diff_checker_base C argv files)) = ''1|'') \<and>
   (5 \<le> length argv \<and> (argv ! 4 = ''0'' \<or> argv ! 4 = ''1'') \<and> files (argv ! 2) = None \<longrightarrow>
      diff_checker_base C argv files =
        \<lparr>out = ''0|Error opening the output file.'' @ endl, err = [], status = Inr 0\<rparr>)"
proof -
  let ?R = "diff_checker_base C argv files"
  let ?E = "length argv < 5 \<or>
      (argv ! 4 \<noteq> ''0'' \<and> argv ! 4 \<noteq> ''1'') \<or>
      (\<exists>claimed. files (argv ! 2) = Some claimed \<and>
         (files (argv ! 3) = None \<or>
          (\<exists>correct i. files (argv ! 3) = Some correct \<and>
             i < length (tokens (Tokenizer_of C) (Tokenizer_on correct)) \<and>
             i < length (tokens (Tokenizer_of C) (Tokenizer_on claimed)) \<and>
             (\<forall>j<i. isEqual (Tokenizer_of C) (tokens (Tokenizer_of C) (Tokenizer_on correct) ! j)
                      (tokens (Tokenizer_of C) (Tokenizer_on claimed) ! j)) \<and>
             kind (tokens (Tokenizer_of C) (Tokenizer_on correct) ! i) = Invalid)))"
  consider (few) "length argv < 5"
    | (flag) "5 \<le> length argv" "argv ! 4 \<noteq> ''0'' \<and> argv ! 4 \<noteq> ''1''"
    | (claimed) "5 \<le> length argv" "argv ! 4 = ''0'' \<or> argv ! 4 = ''1''" "files (argv ! 2) = None"
    | (correct) claimed where "5 \<le> length argv" "argv ! 4 = ''0'' \<or> argv ! 4 = ''1''"
        "files (argv ! 2) = Some claimed" "files (argv ! 3) = None"
    | (both) claimed correct where "5 \<le> length argv" "argv ! 4 = ''0'' \<or> argv ! 4 = ''1''"
        "files (argv ! 2) = Some claimed" "files (argv ! 3) = Some correct"
    by (cases "files (argv ! 2)"; cases "files (argv ! 3)") force+
  then show ?thesis
  proof cases
    case few
    then have "?R = \<lparr>out = [], err = ''Invalid parameters.'' @ endl, status = Inr 1\<rparr>"
      by (simp add: diff_checker_base_def)
    with few show ?thesis by simp
  next
    case flag
    then have "?R = \<lparr>out = [], err = ''Invalid test-case-hidden parameter.'' @ endl,
                      status = Inr 1\<rparr>"
      by (simp add: diff_checker_base_def)
    with flag show ?thesis by simp
  next
    case claimed
    then have "?R = \<lparr>out = ''0|Error opening the output file.'' @ endl, err = [],
                      status = Inr 0\<rparr>"
      by (auto simp: diff_checker_base_def Let_def)
    with claimed show ?thesis by auto
  next
    case correct
    then have "?R = \<lparr>out = [], err = ''Error opening the ground-truth file.'' @ endl,
                      status = Inr 1\<rparr>"
      by (auto simp: diff_checker_base_def Let_def)
    with correct show ?thesis by simp
  next
    case both
    then have R: "?R = compare_loop C (argv ! 4 = ''1'') (Tokenizer_on claimed)
                         (Tokenizer_on correct) []"
      by (auto simp: diff_checker_base_def Let_def)
    note st = compare_loop_status [of C "argv ! 4 = ''1''" claimed correct, folded R]
    from both have n: "\<not> length argv < 5" "\<not> (argv ! 4 \<noteq> ''0'' \<and> argv ! 4 \<noteq> ''1'')"
      by auto
    show ?thesis
    proof (intro conjI)
      show "status ?R = Inr 0 \<or> status ?R = Inr 1" by (rule st(1))
      show "status ?R = Inr 1 \<longleftrightarrow> ?E"
        unfolding st(2) using both(3,4) n by (auto simp: reaches_def)
      show "status ?R = Inr 1 \<longrightarrow> out ?R = []" by (rule st(3))
      show "status ?R = Inr 0 \<longrightarrow> take 2 (out ?R) = ''0|'' \<or> take 2 (out ?R) = ''1|''"
        by (rule st(4))
      show "5 \<le> length argv \<and> (argv ! 4 = ''0'' \<or> argv ! 4 = ''1'') \<and> files (argv ! 2) = None \<longrightarrow>
        ?R = \<lparr>out = ''0|Error opening the output file.'' @ endl, err = [], status = Inr 0\<rparr>"
        using both(3) by simp
    qed
  qed
qed


theorem exit_status_witness:
  "status (diff_checker_base (char_checker True True) [''checker''] (two_files None None)) = Inr 1 \<and>
   out (diff_checker_base (char_checker True True) [''checker''] (two_files None None)) = [] \<and>
   diff_checker_base (char_checker True True) (command_line ''0'')
     (two_files None (Some ''x'')) =
     \<lparr>out = ''0|Error opening the output file.\<newline>'', err = [], status = Inr 0\<rparr>"
proof -
  have few: "length [''checker''] < 5" by simp
  from exit_status [of "char_checker True True" "[''checker'']" "two_files None None"] few
  have a: "status (diff_checker_base (char_checker True True) [''checker''] (two_files None None)) = Inr 1 \<and>
   out (diff_checker_base (char_checker True True) [''checker''] (two_files None None)) = []"
    by blast
  have unopened: "5 \<le> length (command_line ''0'') \<and>
      (command_line ''0'' ! 4 = ''0'' \<or> command_line ''0'' ! 4 = ''1'') \<and>
      two_files None (Some ''x'') (command_line ''0'' ! 2) = None"
    by (simp add: command_line_def two_files_def)
  from exit_status [of "char_checker True True" "command_line ''0''"
      "two_files None (Some ''x'')"] unopened
  have "diff_checker_base (char_checker True True) (command_line ''0'')
     (two_files None (Some ''x'')) =
     \<lparr>out = ''0|Error opening the output file.'' @ endl, err = [], status = Inr 0\<rparr>"
    by blast
  with a show ?thesis by (simp add: endl_def)
qed

text \<open>
  C8 as the specification words it has a non-zero status and no grade line whenever
  the ground truth cannot be opened. When neither file can be opened, the status is 0
  and the grade line of line 59 is written.
\<close>

theorem both_files_unopenable:
  "two_files None None (command_line ''0'' ! 3) = None \<and>
   diff_checker_base (char_checker True True) (command_line ''0'') (two_files None None) =
     \<lparr>out = ''0|Error opening the output file.\<newline>'', err = [], status = Inr 0\<rparr>"
  by (simp add: diff_checker_base_def command_line_def two_files_def endl_def)

section \<open>The echo of the claimed output\<close>

text \<open>
  C9, as the code has it. Take an iteration of the loop in which the two tokenizers
  return the tokens \<open>ct\<close> (claimed) and \<open>gt\<close> (ground truth), \<open>gt\<close> is not
  \<open>Invalid\<close> and the tokens are not equal, with the echo switched on and the test
  case not hidden. Let \<open>pulled\<close> be the first \<open>LookAhead\<close> of the tokens that the
  claimed tokenizer still has to return; they end with its \<open>EndOfFile\<close> or
  \<open>Invalid\<close> token when that comes earlier, and there are none when \<open>ct\<close> is
  such a token. The run writes the message of the mismatch, the line
  \<^verbatim>\<open>Your output (as parsed):\<close>, and then \<^verbatim>\<open>checkerOutput\<close>: what it held, the
  short strings of \<open>ct\<close> and of the pulled tokens, and a marker chosen by the kind of
  the last token pulled (of \<open>ct\<close> when none was): \<^verbatim>\<open>..?..\<close> for \<open>Invalid\<close>,
  nothing for \<open>EndOfFile\<close>, and \<^verbatim>\<open>.....\<close> for every other kind. The run
  returns 0.
\<close>

theorem echo_of_claimed_output:
  assumes "ShowOutput C"
    and "next_token (Tokenizer_of C) claimed = (Inr ct, claimed1)"
    and "next_token (Tokenizer_of C) correct = (Inr gt, correct1)"
    and "kind gt \<noteq> Invalid"
    and "\<not> isEqual (Tokenizer_of C) gt ct"
  shows
    "(let pulled = take (nat (LookAhead C)) (tokens (Tokenizer_of C) claimed1);
          marker = (if kind (last (ct # pulled)) = Invalid then ''..?..''
                    else if kind (last (ct # pulled)) \<noteq> EndOfFile then ''.....''
                    else [])
      in compare_loop C False claimed correct buf =
           \<lparr>out = diff_message C False ct gt @ ''Your output (as parsed):'' @ endl @
                  buf @ sstr (Tokenizer_of C) ct @ concat (map (sstr (Tokenizer_of C)) pulled) @
                  marker @ endl,
            err = [], status = Inr 0\<rparr> \<and>
         length pulled \<le> nat (LookAhead C) \<and>
         (\<forall>i. Suc i < length pulled \<longrightarrow>
              kind (pulled ! i) \<noteq> EndOfFile \<and> kind (pulled ! i) \<noteq> Invalid) \<and>
         (kind ct = EndOfFile \<or> kind ct = Invalid \<longrightarrow> pulled = []))"
proof -
  let ?P = "Tokenizer_of C"
  let ?n = "nat (LookAhead C)"
  let ?pulled = "take ?n (tokens ?P claimed1)"
  let ?b = "buf @ sstr ?P ct"
  note v = next_token_valid_iff [OF assms(2)]
  have "fst (look_ahead C 0 ct claimed1 ?b) =
          Inr (last (ct # ?pulled), ?b @ concat (map (sstr ?P) ?pulled))"
    using look_ahead_tokens [OF v, of C 0 ?b] by simp
  then obtain s where la: "look_ahead C 0 ct claimed1 ?b =
      (Inr (last (ct # ?pulled), ?b @ concat (map (sstr ?P) ?pulled)), s)"
    by (cases "look_ahead C 0 ct claimed1 ?b") simp
  have "compare_loop C False claimed correct buf = mismatch C False ct gt claimed1 ?b"
    using compare_loop_step [OF assms(2,3)] assms(4,5) by simp
  then have run: "compare_loop C False claimed correct buf =
           \<lparr>out = diff_message C False ct gt @ ''Your output (as parsed):'' @ endl @
                  buf @ sstr ?P ct @ concat (map (sstr ?P) ?pulled) @
                  (if kind (last (ct # ?pulled)) = Invalid then ''..?..''
                    else if kind (last (ct # ?pulled)) \<noteq> EndOfFile then ''.....''
                    else []) @ endl,
            err = [], status = Inr 0\<rparr>"
    using assms(1) la by (simp add: mismatch_def Let_def)
  have early: "kind (?pulled ! i) \<noteq> EndOfFile \<and> kind (?pulled ! i) \<noteq> Invalid"
    if "Suc i < length ?pulled" for i
  proof -
    from that have "Suc i < length (tokens ?P claimed1)" and "i < ?n" by simp_all
    with tokens_terminal [of i ?P claimed1] show ?thesis by simp
  qed
  have none: "?pulled = []" if "kind ct = EndOfFile \<or> kind ct = Invalid"
    using that v by (auto simp: tokens_invalid)
  show ?thesis
    unfolding Let_def using run early none by simp
qed


theorem echo_of_claimed_output_witness:
  "ShowOutput (char_checker True True) \<and>
   compare_loop (char_checker True True) False (Tokenizer_on ''1 2 4\<newline>'')
     (Tokenizer_on ''4'') [] =
     \<lparr>out = ''0|Unexpected '1' at line 1, token 1, while expecting '4'.\<newline>'' @
            ''Your output (as parsed):\<newline>'' @ ''1 2 4<end>\<newline>'',
      err = [], status = Inr 0\<rparr>"
proof -
  let ?C = "char_checker True True"
  let ?ct = "\<lparr>mKind = Valid, mValue = CHR ''1'', mLine = 1, mToken = 1\<rparr>"
  let ?gt = "\<lparr>mKind = Valid, mValue = CHR ''4'', mLine = 1, mToken = 1\<rparr>"
  let ?claimed1 = "\<lparr>mInput = '' 2 4\<newline>'', mIsValid = True, mLine = 1, mToken = 2\<rparr>"
  let ?correct1 = "\<lparr>mInput = [], mIsValid = True, mLine = 1, mToken = 2\<rparr>"
  have P: "Tokenizer_of ?C = char_profile" and L: "nat (LookAhead ?C) = 10"
    and h1: "ShowOutput ?C"
    by (simp_all add: char_checker_def)
  have h2: "next_token (Tokenizer_of ?C) (Tokenizer_on ''1 2 4\<newline>'') = (Inr ?ct, ?claimed1)"
    unfolding P by code_simp
  have h3: "next_token (Tokenizer_of ?C) (Tokenizer_on ''4'') = (Inr ?gt, ?correct1)"
    unfolding P by code_simp
  have h4: "kind ?gt \<noteq> Invalid" by (simp add: kind_def)
  have h5: "\<not> isEqual (Tokenizer_of ?C) ?gt ?ct"
    unfolding P by (simp add: isEqual_def EQ_char_profile)
  have ts: "tokens char_profile ?claimed1 =
     [\<lparr>mKind = Space, mValue = CHR 0x00, mLine = 1, mToken = 2\<rparr>,
      \<lparr>mKind = Valid, mValue = CHR ''2'', mLine = 1, mToken = 3\<rparr>,
      \<lparr>mKind = Space, mValue = CHR 0x00, mLine = 1, mToken = 4\<rparr>,
      \<lparr>mKind = Valid, mValue = CHR ''4'', mLine = 1, mToken = 5\<rparr>,
      \<lparr>mKind = EndOfFile, mValue = CHR 0x00, mLine = 1, mToken = 6\<rparr>]"
    by code_simp
  have dm: "diff_message ?C False ?ct ?gt =
      ''0|Unexpected '1' at line 1, token 1, while expecting '4'.\<newline>''"
    by code_simp
  have ins: "T_insert char_profile = (\<lambda>c. [c])" by (simp add: char_profile_def)
  from echo_of_claimed_output [OF h1 h2 h3 h4 h5, of "[]"]
  have "compare_loop ?C False (Tokenizer_on ''1 2 4\<newline>'') (Tokenizer_on ''4'') [] =
     \<lparr>out = ''0|Unexpected '1' at line 1, token 1, while expecting '4'.\<newline>'' @
            ''Your output (as parsed):\<newline>'' @ ''1 2 4<end>\<newline>'',
      err = [], status = Inr 0\<rparr>"
    unfolding P L by (simp add: Let_def ts dm sstr_def kind_def ins endl_def)
  with h1 show ?thesis by blast
qed

text \<open>
  C9 as the specification words it has \<^verbatim>\<open>.....\<close> only when more content exists
  after the tokens echoed, and nothing when the claimed stream is exactly exhausted.
  The claimed output \<^verbatim>\<open>abcdefghijk\<close> differs from the ground truth \<^verbatim>\<open>x\<close> at its
  first token; the ten tokens pulled after it are all that is left of the content, the
  only token not yet returned is \<open>EndOfFile\<close>, and \<^verbatim>\<open>.....\<close> is appended.
\<close>

theorem dots_after_exhausted_stream:
  "diff_checker_base (char_checker True True) (command_line ''0'')
     (two_files (Some ''abcdefghijk'') (Some ''x'')) =
     \<lparr>out = ''0|Unexpected 'a' at line 1, token 1, while expecting 'x'.\<newline>'' @
            ''Your output (as parsed):\<newline>'' @ ''abcdefghijk.....\<newline>'',
      err = [], status = Inr 0\<rparr> \<and>
   tokens char_profile (Tokenizer_on ''abcdefghijk'') =
     [\<lparr>mKind = Valid, mValue = CHR ''a'', mLine = 1, mToken = 1\<rparr>,
      \<lparr>mKind = Valid, mValue = CHR ''b'', mLine = 1, mToken = 2\<rparr>,
      \<lparr>mKind = Valid, mValue = CHR ''c'', mLine = 1, mToken = 3\<rparr>,
      \<lparr>mKind = Valid, mValue = CHR ''d'', mLine = 1, mToken = 4\<rparr>,
      \<lparr>mKind = Valid, mValue = CHR ''e'', mLine = 1, mToken = 5\<rparr>,
      \<lparr>mKind = Valid, mValue = CHR ''f'', mLine = 1, mToken = 6\<rparr>,
      \<lparr>mKind = Valid, mValue = CHR ''g'', mLine = 1, mToken = 7\<rparr>,
      \<lparr>mKind = Valid, mValue = CHR ''h'', mLine = 1, mToken = 8\<rparr>,
      \<lparr>mKind = Valid, mValue = CHR ''i'', mLine = 1, mToken = 9\<rparr>,
      \<lparr>mKind = Valid, mValue = CHR ''j'', mLine = 1, mToken = 10\<rparr>,
      \<lparr>mKind = Valid, mValue = CHR ''k'', mLine = 1, mToken = 11\<rparr>,
      \<lparr>mKind = EndOfFile, mValue = CHR 0x00, mLine = 1, mToken = 12\<rparr>]"
  by code_simp

end
